theory Spec2Isabelle
  imports Complex_Main
begin

section \<open>Data model (src/utils.py)\<close>

text \<open>
  \<^verbatim>\<open>class Direction(str, Enum)\<close>: the two members, and the string each one carries
  as its \<^verbatim>\<open>value\<close>.
\<close>

datatype Direction = CLIENT_TO_SERVER | SERVER_TO_CLIENT

fun direction_value :: "Direction \<Rightarrow> string" where
  "direction_value CLIENT_TO_SERVER = ''C->S''"
| "direction_value SERVER_TO_CLIENT = ''S->C''"

text \<open>
  \<^verbatim>\<open>@dataclass class Packet\<close>. Python integers are unbounded, so they are \<open>int\<close>;
  \<^verbatim>\<open>seq_no: int | None\<close> is an option.
\<close>

record Packet =
  index :: int
  direction :: Direction
  payload_len :: int
  msg_type :: string
  seq_no :: "int option"
  dropped :: bool

text \<open>
  The dataclass constructor as the loader calls it: \<^verbatim>\<open>seq_no\<close> and \<^verbatim>\<open>dropped\<close>
  take their defaults \<^verbatim>\<open>None\<close> and \<^verbatim>\<open>False\<close>.
\<close>

definition new_Packet :: "int \<Rightarrow> Direction \<Rightarrow> int \<Rightarrow> string \<Rightarrow> Packet" where
  "new_Packet idx d len ty =
     \<lparr>index = idx, direction = d, payload_len = len, msg_type = ty,
      seq_no = None, dropped = False\<rparr>"

section \<open>Python values and exceptions\<close>

text \<open>
  What \<^verbatim>\<open>json.load\<close> and \<^verbatim>\<open>yaml.safe_load\<close> hand to the program. A finite float is
  the rational number it denotes; \<open>PNaN\<close> is not-a-number and \<open>PInf\<close> either
  infinity. A dictionary is an association list in which the first pair with a key
  carries that key's value. Only string keys are kept: every lookup of the program
  uses a string key, which no key of another type equals.
\<close>

datatype pyval =
    PNone
  | PBool bool
  | PInt int
  | PFloat rat
  | PNaN
  | PInf
  | PStr (the_str: string)
  | PList (the_list: "pyval list")
  | PDict (the_dict: "(string \<times> pyval) list")

text \<open>
  The exceptions that reach the caller. \<open>ValueError\<close> carries the message the program
  builds. \<open>IntValueError v\<close> is the \<^verbatim>\<open>ValueError\<close> that \<^verbatim>\<open>int(v)\<close> raises by itself
  (an unparsable string, not-a-number); \<open>TypeError\<close>, \<open>OverflowError\<close> and
  \<open>IntValueError\<close> come from the interpreter, whose message texts are left out.
\<close>

datatype py_error =
    KeyError string
  | TypeError
  | OverflowError
  | IntValueError pyval
  | ValueError string

definition isinstance_dict :: "pyval \<Rightarrow> bool" where
  "isinstance_dict v = (case v of PDict _ \<Rightarrow> True | _ \<Rightarrow> False)"

definition isinstance_str :: "pyval \<Rightarrow> bool" where
  "isinstance_str v = (case v of PStr _ \<Rightarrow> True | _ \<Rightarrow> False)"

definition isinstance_list :: "pyval \<Rightarrow> bool" where
  "isinstance_list v = (case v of PList _ \<Rightarrow> True | _ \<Rightarrow> False)"

text \<open>\<^verbatim>\<open>d.get(k, dflt)\<close>; \<^verbatim>\<open>d.get(k)\<close> is \<open>dict_get d k PNone\<close>.\<close>

definition dict_get :: "(string \<times> pyval) list \<Rightarrow> string \<Rightarrow> pyval \<Rightarrow> pyval" where
  "dict_get d k dflt = (case map_of d k of None \<Rightarrow> dflt | Some v \<Rightarrow> v)"

text \<open>
  \<^verbatim>\<open>item[k]\<close> with a string key: \<^verbatim>\<open>KeyError\<close> on a dictionary without the key,
  \<^verbatim>\<open>TypeError\<close> on every value that is not a dictionary.
\<close>

definition getitem :: "pyval \<Rightarrow> string \<Rightarrow> py_error + pyval" where
  "getitem item k =
     (case item of
        PDict d \<Rightarrow> (case map_of d k of None \<Rightarrow> Inl (KeyError k) | Some v \<Rightarrow> Inr v)
      | _ \<Rightarrow> Inl TypeError)"

text \<open>\<^verbatim>\<open>int(x)\<close> of a finite float truncates towards zero.\<close>

definition float_trunc :: "rat \<Rightarrow> int" where
  "float_trunc r = (if 0 \<le> r then \<lfloor>r\<rfloor> else \<lceil>r\<rceil>)"

text \<open>
  The built-in \<^verbatim>\<open>int(v)\<close>. How Python reads an integer out of a string (white space,
  sign, underscores, Unicode digits) is the interpreter's business: it is the
  parameter \<open>int_of_str\<close>, which gives \<open>None\<close> where \<^verbatim>\<open>int\<close> raises.
\<close>

fun py_int :: "(string \<Rightarrow> int option) \<Rightarrow> pyval \<Rightarrow> py_error + int" where
  "py_int int_of_str PNone = Inl TypeError"
| "py_int int_of_str (PBool b) = Inr (if b then 1 else 0)"
| "py_int int_of_str (PInt n) = Inr n"
| "py_int int_of_str (PFloat r) = Inr (float_trunc r)"
| "py_int int_of_str PNaN = Inl (IntValueError PNaN)"
| "py_int int_of_str PInf = Inl OverflowError"
| "py_int int_of_str (PStr s) =
     (case int_of_str s of None \<Rightarrow> Inl (IntValueError (PStr s)) | Some n \<Rightarrow> Inr n)"
| "py_int int_of_str (PList xs) = Inl TypeError"
| "py_int int_of_str (PDict d) = Inl TypeError"

text \<open>
  The built-in \<^verbatim>\<open>str(v)\<close>, also what an f-string puts for \<^verbatim>\<open>{v}\<close>: a string is
  itself, and the text of any other value is the parameter \<open>str_of\<close>.
\<close>

definition py_str :: "(pyval \<Rightarrow> string) \<Rightarrow> pyval \<Rightarrow> string" where
  "py_str str_of v = (case v of PStr s \<Rightarrow> s | _ \<Rightarrow> str_of v)"

text \<open>A text between two apostrophes, as the messages of the program write it.\<close>

definition quoted :: "string \<Rightarrow> string" where
  "quoted s = CHR 0x27 # s @ [CHR 0x27]"

section \<open>Trace Loader\<close>

text \<open>
  \<^verbatim>\<open>Direction(direction_str)\<close>: the member whose value is the argument; \<open>None\<close>
  stands for the \<^verbatim>\<open>ValueError\<close> the enumeration raises for every other argument,
  which the loader catches.
\<close>

definition Direction_of :: "pyval \<Rightarrow> Direction option" where
  "Direction_of v =
     (if v = PStr ''C->S'' then Some CLIENT_TO_SERVER
      else if v = PStr ''S->C'' then Some SERVER_TO_CLIENT
      else None)"

text \<open>
  The body of the loop of \<^verbatim>\<open>load_packet_trace\<close> for the item at position \<open>idx\<close>, in
  the order in which Python evaluates it: \<^verbatim>\<open>item["direction"]\<close>, the direction, then
  the arguments of the \<^verbatim>\<open>Packet\<close> constructor from left to right. \<open>path\<close> is the
  text of \<^verbatim>\<open>Path(path)\<close>.
\<close>

definition load_item ::
  "(string \<Rightarrow> int option) \<Rightarrow> (pyval \<Rightarrow> string) \<Rightarrow> string \<Rightarrow> int \<Rightarrow> pyval \<Rightarrow> py_error + Packet" where
  "load_item int_of_str str_of path idx item =
     (case getitem item ''direction'' of
        Inl e \<Rightarrow> Inl e
      | Inr direction_str \<Rightarrow>
          (case Direction_of direction_str of
             None \<Rightarrow>
               Inl (ValueError (''Invalid direction '' @ quoted (py_str str_of direction_str)
                                @ '' in '' @ path))
           | Some dir \<Rightarrow>
               (case getitem item ''payload_len'' of
                  Inl e \<Rightarrow> Inl e
                | Inr len \<Rightarrow>
                    (case py_int int_of_str len of
                       Inl e \<Rightarrow> Inl e
                     | Inr len_int \<Rightarrow>
                         (case getitem item ''msg_type'' of
                            Inl e \<Rightarrow> Inl e
                          | Inr ty \<Rightarrow>
                              Inr (new_Packet idx dir len_int (py_str str_of ty)))))))"

text \<open>
  The loop over \<^verbatim>\<open>enumerate(raw_packets)\<close>: the first exception ends the call, and
  the list is returned only after the last item.
\<close>

fun load_items ::
  "(string \<Rightarrow> int option) \<Rightarrow> (pyval \<Rightarrow> string) \<Rightarrow> string \<Rightarrow> int \<Rightarrow> pyval list
   \<Rightarrow> py_error + Packet list" where
  "load_items int_of_str str_of path idx [] = Inr []"
| "load_items int_of_str str_of path idx (item # raw_packets) =
     (case load_item int_of_str str_of path idx item of
        Inl e \<Rightarrow> Inl e
      | Inr pkt \<Rightarrow>
          (case load_items int_of_str str_of path (idx + 1) raw_packets of
             Inl e \<Rightarrow> Inl e
           | Inr packets \<Rightarrow> Inr (pkt # packets)))"

text \<open>
  \<^verbatim>\<open>load_packet_trace\<close> from the parsed document on: \<open>raw_packets\<close> are the items of
  the JSON array read from \<open>path\<close>. Opening and parsing the file are not modelled.
\<close>

definition load_packet_trace ::
  "(string \<Rightarrow> int option) \<Rightarrow> (pyval \<Rightarrow> string) \<Rightarrow> string \<Rightarrow> pyval list
   \<Rightarrow> py_error + Packet list" where
  "load_packet_trace int_of_str str_of path raw_packets =
     load_items int_of_str str_of path 0 raw_packets"

section \<open>Sequence Number Assigner\<close>

text \<open>
  The loop of \<^verbatim>\<open>compute_sequence_numbers\<close>, with its two counters as arguments. Each
  packet is copied field by field, the copy receives the counter of its direction
  (the \<^verbatim>\<open>else\<close> branch takes every direction that is not client-to-server), that
  counter is incremented and the copy is appended to the result.
\<close>

fun sequence_loop :: "int \<Rightarrow> int \<Rightarrow> Packet list \<Rightarrow> Packet list" where
  "sequence_loop seq_c2s seq_s2c [] = []"
| "sequence_loop seq_c2s seq_s2c (pkt # packets) =
     (if direction pkt = CLIENT_TO_SERVER
      then pkt\<lparr>seq_no := Some seq_c2s\<rparr> # sequence_loop (seq_c2s + 1) seq_s2c packets
      else pkt\<lparr>seq_no := Some seq_s2c\<rparr> # sequence_loop seq_c2s (seq_s2c + 1) packets)"

definition compute_sequence_numbers :: "Packet list \<Rightarrow> Packet list" where
  "compute_sequence_numbers packets = sequence_loop 0 0 packets"

section \<open>Drop Simulator and Visibility Filter\<close>

definition apply_drop_indices :: "Packet list \<Rightarrow> int list \<Rightarrow> Packet list" where
  "apply_drop_indices packets drop_indices =
     (let drop_set = set drop_indices
      in map (\<lambda>pkt. if index pkt \<in> drop_set then pkt\<lparr>dropped := True\<rparr> else pkt) packets)"

definition filter_visible_packets :: "Packet list \<Rightarrow> Packet list" where
  "filter_visible_packets packets = filter (\<lambda>pkt. \<not> dropped pkt) packets"

text \<open>
  The three calls that \<^verbatim>\<open>run_demo\<close>, \<^verbatim>\<open>cmd_explore\<close> and \<^verbatim>\<open>api_run\<close> make one after
  the other on a baseline; the short name only abbreviates the composition.
\<close>

abbreviation visible_after_attack :: "Packet list \<Rightarrow> int list \<Rightarrow> Packet list" where
  "visible_after_attack baseline drop_indices \<equiv>
     compute_sequence_numbers (filter_visible_packets (apply_drop_indices baseline drop_indices))"

section \<open>Diff Reporter\<close>

text \<open>
  The dictionary \<^verbatim>\<open>base_seq_by_index\<close> that \<^verbatim>\<open>build_diff\<close> (web_app.py) and
  \<^verbatim>\<open>print_sequence_diff\<close> (utils.py) fill in the same way: every baseline packet with
  a sequence number stores it under its index, a later packet overwriting an earlier
  one with the same index.
\<close>

definition base_seq_by_index :: "Packet list \<Rightarrow> (int \<rightharpoonup> int)" where
  "base_seq_by_index baseline =
     foldl (\<lambda>m pkt. case seq_no pkt of None \<Rightarrow> m | Some s \<Rightarrow> m(index pkt \<mapsto> s))
           Map.empty baseline"

text \<open>A row of \<^verbatim>\<open>build_diff\<close>: the dictionary with these six keys.\<close>

record diff_row =
  row_index :: int
  row_direction :: string
  row_msg_type :: string
  seq_before :: "int option"
  seq_after :: "int option"
  changed :: bool

definition build_diff :: "Packet list \<Rightarrow> Packet list \<Rightarrow> diff_row list" where
  "build_diff baseline after_attack =
     map (\<lambda>pkt.
            let seq_before = base_seq_by_index baseline (index pkt);
                seq_after = seq_no pkt;
                changed = (seq_before \<noteq> None \<and> seq_after \<noteq> None \<and> seq_before \<noteq> seq_after)
            in \<lparr>row_index = index pkt, row_direction = direction_value (direction pkt),
                row_msg_type = msg_type pkt, seq_before = seq_before, seq_after = seq_after,
                changed = changed\<rparr>)
         after_attack"

text \<open>
  \<^verbatim>\<open>print_sequence_diff\<close> prints one table row for each packet of the second list.
  Of each row this keeps the cell of the column \<^verbatim>\<open>changed\<close>; the title, the other
  cells and the padding are layout.
\<close>

definition print_sequence_diff_changed :: "Packet list \<Rightarrow> Packet list \<Rightarrow> string list" where
  "print_sequence_diff_changed baseline after_attack =
     map (\<lambda>pkt.
            let seq_before = base_seq_by_index baseline (index pkt);
                seq_after = seq_no pkt
            in if seq_before \<noteq> None \<and> seq_after \<noteq> None \<and> seq_before \<noteq> seq_after
               then ''yes'' else ''no'')
         after_attack"

section \<open>Drop-Set Selector (src/attack_proxy.py)\<close>

text \<open>\<^verbatim>\<open>[int(i) for i in drop_indices]\<close>: the first element that \<^verbatim>\<open>int\<close> refuses raises.\<close>

fun int_list :: "(string \<Rightarrow> int option) \<Rightarrow> pyval list \<Rightarrow> py_error + int list" where
  "int_list int_of_str [] = Inr []"
| "int_list int_of_str (v # vs) =
     (case py_int int_of_str v of
        Inl e \<Rightarrow> Inl e
      | Inr n \<Rightarrow> (case int_list int_of_str vs of Inl e \<Rightarrow> Inl e | Inr ns \<Rightarrow> Inr (n # ns)))"

text \<open>
  \<^verbatim>\<open>select_drop_indices\<close>, branch by branch. The description is returned as it is
  found, whatever its type.
\<close>

definition select_drop_indices ::
  "(string \<Rightarrow> int option) \<Rightarrow> (string \<times> pyval) list \<Rightarrow> py_error + (int list \<times> pyval)" where
  "select_drop_indices int_of_str config =
     (let profiles = dict_get config ''profiles'' PNone;
          active_profile = dict_get config ''active_profile'' PNone
      in if isinstance_dict profiles \<and> isinstance_str active_profile then
           (let profile = dict_get (the_dict profiles) (the_str active_profile) PNone
            in if \<not> isinstance_dict profile then
                 Inl (ValueError (''Profile '' @ quoted (the_str active_profile)
                                  @ '' not found or not a mapping''))
               else
                 (let drop_indices = dict_get (the_dict profile) ''drop_indices'' (PList [])
                  in if \<not> isinstance_list drop_indices then
                       Inl (ValueError (''Profile '' @ quoted (the_str active_profile)
                                        @ '' has invalid '' @ quoted ''drop_indices''))
                     else
                       (let description =
                              dict_get (the_dict profile) ''description''
                                (PStr (''profile '' @ quoted (the_str active_profile)))
                        in case int_list int_of_str (the_list drop_indices) of
                             Inl e \<Rightarrow> Inl e
                           | Inr indices \<Rightarrow> Inr (indices, description))))
         else
           (let drop_indices = dict_get config ''drop_indices'' (PList [])
            in if \<not> isinstance_list drop_indices then
                 Inl (ValueError (''Config key '' @ quoted ''drop_indices''
                                  @ '' must be a list of integers''))
               else
                 (case int_list int_of_str (the_list drop_indices) of
                    Inl e \<Rightarrow> Inl e
                  | Inr indices \<Rightarrow> Inr (indices, PStr ''top-level drop_indices''))))"

text \<open>
  \<^verbatim>\<open>load_config\<close> from the parsed YAML document on: a document that is not a mapping
  is refused.
\<close>

definition load_config :: "string \<Rightarrow> pyval \<Rightarrow> py_error + (string \<times> pyval) list" where
  "load_config path document =
     (if \<not> isinstance_dict document then
        Inl (ValueError (''Configuration in '' @ path @ '' must be a mapping''))
      else Inr (the_dict document))"

section \<open>Random selection (src/cli.py, web_app.py)\<close>

text \<open>
  The list comprehension both entry points build from the baseline: the indices of
  the client-to-server packets, in order.
\<close>

definition client_indices :: "Packet list \<Rightarrow> int list" where
  "client_indices baseline =
     map index (filter (\<lambda>pkt. direction pkt = CLIENT_TO_SERVER) baseline)"

text \<open>
  The module \<^verbatim>\<open>random\<close> keeps one generator for the whole process. Its state is a
  value of a type \<open>'g\<close> that the functions below take and return. The library is two
  parameters: \<open>seed_gen seed\<close> is the state \<^verbatim>\<open>random.seed(seed)\<close> leaves, and
  \<open>sample g population k\<close> is the list \<^verbatim>\<open>random.sample(population, k)\<close> draws in state
  \<open>g\<close> together with the state it leaves. \<^verbatim>\<open>random.sample\<close> raises when \<open>k\<close> is
  negative or exceeds the population.
\<close>

definition random_sample ::
  "('g \<Rightarrow> int list \<Rightarrow> nat \<Rightarrow> int list \<times> 'g) \<Rightarrow> 'g \<Rightarrow> int list \<Rightarrow> int
   \<Rightarrow> (py_error + int list) \<times> 'g" where
  "random_sample sample g population k =
     (if k < 0 \<or> int (length population) < k then
        (Inl (ValueError ''Sample larger than population or is negative''), g)
      else (case sample g population (nat k) of (drawn, g') \<Rightarrow> (Inr drawn, g')))"

text \<open>
  What \<^verbatim>\<open>cmd_explore\<close> reports after the baseline table: that there is no client
  packet, that there is nothing to drop, or the chosen indices with the post-attack
  trace and the \<^verbatim>\<open>changed\<close> column of the diff it prints.
\<close>

datatype explore_outcome =
    No_client_packets
  | Nothing_to_drop
  | Explored (chosen_indices: "int list") (visible_trace: "Packet list") (changed_column: "string list")

text \<open>
  \<^verbatim>\<open>cmd_explore\<close>, from the parsed trace document on. The result is the exception or
  the outcome, and the state of the generator afterwards.
\<close>

definition cmd_explore ::
  "(string \<Rightarrow> int option) \<Rightarrow> (pyval \<Rightarrow> string) \<Rightarrow> (int \<Rightarrow> 'g)
   \<Rightarrow> ('g \<Rightarrow> int list \<Rightarrow> nat \<Rightarrow> int list \<times> 'g)
   \<Rightarrow> string \<Rightarrow> pyval list \<Rightarrow> int \<Rightarrow> int \<Rightarrow> 'g \<Rightarrow> (py_error + explore_outcome) \<times> 'g" where
  "cmd_explore int_of_str str_of seed_gen sample pcap raw_packets random_drop seed g =
     (case load_packet_trace int_of_str str_of pcap raw_packets of
        Inl e \<Rightarrow> (Inl e, g)
      | Inr packets \<Rightarrow>
          (let baseline = compute_sequence_numbers packets;
               client = client_indices baseline
           in if client = [] then (Inr No_client_packets, g)
              else
                (let g1 = (if seed \<noteq> 0 then seed_gen seed else g);
                     k = max 0 (min random_drop (int (length client)))
                 in if k = 0 then (Inr Nothing_to_drop, g1)
                    else
                      (case random_sample sample g1 client k of
                         (Inl e, g2) \<Rightarrow> (Inl e, g2)
                       | (Inr drawn, g2) \<Rightarrow>
                           (let chosen = sort drawn;
                                visible = visible_after_attack baseline chosen
                            in (Inr (Explored chosen visible
                                       (print_sequence_diff_changed baseline visible)), g2))))))"

text \<open>
  The JSON answers of \<^verbatim>\<open>api_run\<close>, one constructor for each \<^verbatim>\<open>jsonify\<close> call, with
  the traces and the diff they carry. \<open>Explore_error\<close> is the answer with the key
  \<^verbatim>\<open>error\<close> and the untouched baseline; \<open>Unknown_mode\<close> is the answer with status 400.
\<close>

datatype api_response =
    Baseline_response "Packet list" "Packet list" "diff_row list"
  | Attack_response pyval "int list" "Packet list" "Packet list" "diff_row list"
  | Explore_error "Packet list" "Packet list" "diff_row list"
  | Explore_response "int list" "Packet list" "Packet list" "diff_row list"
  | Unknown_mode pyval

text \<open>
  \<^verbatim>\<open>api_run\<close>: \<open>data\<close> is the JSON object of the request (empty when the request has
  none), \<open>raw_packets\<close> the document at \<^verbatim>\<open>TRACE_PATH\<close> and \<open>config_document\<close> the one at
  \<^verbatim>\<open>CONFIG_PATH\<close>.
\<close>

definition api_run ::
  "(string \<Rightarrow> int option) \<Rightarrow> (pyval \<Rightarrow> string) \<Rightarrow> (int \<Rightarrow> 'g)
   \<Rightarrow> ('g \<Rightarrow> int list \<Rightarrow> nat \<Rightarrow> int list \<times> 'g)
   \<Rightarrow> pyval list \<Rightarrow> pyval \<Rightarrow> (string \<times> pyval) list \<Rightarrow> 'g
   \<Rightarrow> (py_error + api_response) \<times> 'g" where
  "api_run int_of_str str_of seed_gen sample raw_packets config_document data g =
     (let mode = dict_get data ''mode'' (PStr ''baseline'')
      in case load_packet_trace int_of_str str_of ''data/sample_trace.json'' raw_packets of
           Inl e \<Rightarrow> (Inl e, g)
         | Inr packets \<Rightarrow>
             (let baseline = compute_sequence_numbers packets
              in if mode = PStr ''baseline'' then
                   (Inr (Baseline_response baseline baseline (build_diff baseline baseline)), g)
                 else if mode = PStr ''attack'' then
                   (case load_config ''data/demo_config.yaml'' config_document of
                      Inl e \<Rightarrow> (Inl e, g)
                    | Inr config \<Rightarrow>
                        (case select_drop_indices int_of_str config of
                           Inl e \<Rightarrow> (Inl e, g)
                         | Inr (drop_indices, desc) \<Rightarrow>
                             (let visible_with_seq = visible_after_attack baseline drop_indices
                              in (Inr (Attack_response desc drop_indices baseline visible_with_seq
                                         (build_diff baseline visible_with_seq)), g))))
                 else if mode = PStr ''explore'' then
                   (case py_int int_of_str (dict_get data ''random_drop'' (PInt 1)) of
                      Inl e \<Rightarrow> (Inl e, g)
                    | Inr random_drop \<Rightarrow>
                        (case py_int int_of_str (dict_get data ''seed'' (PInt 0)) of
                           Inl e \<Rightarrow> (Inl e, g)
                         | Inr seed \<Rightarrow>
                             (let client = client_indices baseline
                              in if client = [] \<or> random_drop \<le> 0 then
                                   (Inr (Explore_error baseline baseline
                                           (build_diff baseline baseline)), g)
                                 else
                                   (let g1 = (if seed \<noteq> 0 then seed_gen seed else g);
                                        k = max 0 (min random_drop (int (length client)))
                                    in case random_sample sample g1 client k of
                                         (Inl e, g2) \<Rightarrow> (Inl e, g2)
                                       | (Inr drawn, g2) \<Rightarrow>
                                           (let chosen = sort drawn;
                                                visible_with_seq =
                                                  visible_after_attack baseline chosen
                                            in (Inr (Explore_response chosen baseline
                                                       visible_with_seq
                                                       (build_diff baseline visible_with_seq)),
                                                g2))))))
                 else (Inr (Unknown_mode mode), g)))"

text \<open>
  The contract of \<^verbatim>\<open>random.sample\<close> in the library's documentation: a list of \<open>k\<close>
  elements of the population, taken at pairwise different positions.
\<close>

definition sample_without_replacement ::
  "('g \<Rightarrow> int list \<Rightarrow> nat \<Rightarrow> int list \<times> 'g) \<Rightarrow> bool" where
  "sample_without_replacement sample \<longleftrightarrow>
     (\<forall>g population k. k \<le> length population \<longrightarrow>
        (\<exists>positions. distinct positions \<and> length positions = k
            \<and> (\<forall>j \<in> set positions. j < length population)
            \<and> fst (sample g population k) = map (nth population) positions))"

section \<open>Vocabulary of the properties\<close>

text \<open>The number of packets of direction \<open>d\<close> in a list.\<close>

definition count_dir :: "Direction \<Rightarrow> Packet list \<Rightarrow> nat" where
  "count_dir d packets = length (filter (\<lambda>pkt. direction pkt = d) packets)"

text \<open>The counter a packet of direction \<open>d\<close> reads in the loop.\<close>

definition counter_of :: "Direction \<Rightarrow> int \<Rightarrow> int \<Rightarrow> int" where
  "counter_of d seq_c2s seq_s2c = (if d = CLIENT_TO_SERVER then seq_c2s else seq_s2c)"

section \<open>Data for the closed examples\<close>

text \<open>
  An instance of the parameter \<open>int_of_str\<close>: \<^verbatim>\<open>int\<close> on the strings made of an
  optional sign and ASCII digits, where it agrees with Python, and \<open>None\<close> on every
  other string.
\<close>

definition digit_of :: "char \<Rightarrow> nat option" where
  "digit_of c =
     (if 48 \<le> (of_char c :: nat) \<and> (of_char c :: nat) \<le> 57 then Some (of_char c - 48) else None)"

fun decimal :: "nat \<Rightarrow> string \<Rightarrow> nat option" where
  "decimal acc [] = Some acc"
| "decimal acc (c # cs) =
     (case digit_of c of None \<Rightarrow> None | Some d \<Rightarrow> decimal (10 * acc + d) cs)"

definition ascii_int :: "string \<Rightarrow> int option" where
  "ascii_int s =
     (case s of
        [] \<Rightarrow> None
      | c # cs \<Rightarrow>
          if c = CHR ''-'' then (if cs = [] then None else map_option (\<lambda>n. - int n) (decimal 0 cs))
          else if c = CHR ''+'' then (if cs = [] then None else map_option int (decimal 0 cs))
          else map_option int (decimal 0 s))"

text \<open>
  An instance of the parameter \<open>str_of\<close>: the text Python gives \<^verbatim>\<open>None\<close> and the two
  booleans. The closed examples never ask for the text of another value, for which
  this gives the empty string.
\<close>

definition plain_str :: "pyval \<Rightarrow> string" where
  "plain_str v =
     (case v of
        PNone \<Rightarrow> ''None''
      | PBool b \<Rightarrow> (if b then ''True'' else ''False'')
      | _ \<Rightarrow> [])"

text \<open>A trace of five packets, as the loader builds them.\<close>

definition demo_trace :: "Packet list" where
  "demo_trace =
     [new_Packet 0 CLIENT_TO_SERVER 120 ''KEXINIT'',
      new_Packet 1 SERVER_TO_CLIENT 120 ''KEXINIT'',
      new_Packet 2 CLIENT_TO_SERVER 48 ''KEX_ECDH_INIT'',
      new_Packet 3 SERVER_TO_CLIENT 96 ''KEX_ECDH_REPLY'',
      new_Packet 4 CLIENT_TO_SERVER 16 ''NEWKEYS'']"

text \<open>
  A generator whose state counts the draws and whose sample is the first \<open>k\<close>
  elements of the population in reverse order; it meets the contract of
  \<^verbatim>\<open>random.sample\<close>.
\<close>

definition first_k_sample :: "nat \<Rightarrow> int list \<Rightarrow> nat \<Rightarrow> int list \<times> nat" where
  "first_k_sample g population k = (rev (take k population), Suc g)"

text \<open>A trace document of three records.\<close>

definition demo_raw :: "pyval list" where
  "demo_raw =
     [PDict [(''direction'', PStr ''C->S''), (''payload_len'', PInt 120), (''msg_type'', PStr ''KEXINIT'')],
      PDict [(''direction'', PStr ''S->C''), (''payload_len'', PInt 96), (''msg_type'', PStr ''KEXINIT'')],
      PDict [(''direction'', PStr ''C->S''), (''payload_len'', PInt 16), (''msg_type'', PStr ''NEWKEYS'')]]"

section \<open>The sequence loop, position by position\<close>

lemma count_dir_Nil [simp]: "count_dir d [] = 0"
  by (simp add: count_dir_def)

lemma count_dir_Cons [simp]:
  "count_dir d (p # ps) = (if direction p = d then Suc (count_dir d ps) else count_dir d ps)"
  by (simp add: count_dir_def)

lemma count_dir_append [simp]: "count_dir d (xs @ ys) = count_dir d xs + count_dir d ys"
  by (simp add: count_dir_def)

lemma count_dir_le_length: "count_dir d ps \<le> length ps"
  by (simp add: count_dir_def)

lemma length_sequence_loop [simp]: "length (sequence_loop c s ps) = length ps"
  by (induction ps arbitrary: c s) auto

lemma sequence_loop_nth:
  "i < length ps \<Longrightarrow>
   sequence_loop c s ps ! i =
     (ps ! i)\<lparr>seq_no := Some (counter_of (direction (ps ! i)) c s
                              + int (count_dir (direction (ps ! i)) (take i ps)))\<rparr>"
proof (induction ps arbitrary: c s i)
  case Nil
  then show ?case by simp
next
  case (Cons p ps)
  show ?case
  proof (cases i)
    case 0
    then show ?thesis by (simp add: counter_of_def)
  next
    case (Suc j)
    with Cons.prems have j: "j < length ps" by simp
    show ?thesis
      using Cons.IH [OF j] Suc
      by (cases "direction p"; cases "direction (ps ! j)") (simp_all add: counter_of_def)
  qed
qed

lemma sequence_loop_append:
  "sequence_loop c s (xs @ ys) =
     sequence_loop c s xs
     @ sequence_loop (c + int (count_dir CLIENT_TO_SERVER xs))
                     (s + int (count_dir SERVER_TO_CLIENT xs)) ys"
proof (induction xs arbitrary: c s)
  case Nil
  then show ?case by simp
next
  case (Cons p xs)
  then show ?case by (cases "direction p") (simp_all add: algebra_simps)
qed

lemma sequence_loop_direction [simp]:
  "map direction (sequence_loop c s ps) = map direction ps"
  by (induction ps arbitrary: c s) auto

lemma count_dir_sequence_loop [simp]:
  "count_dir d (sequence_loop c s ps) = count_dir d ps"
  by (induction ps arbitrary: c s) auto

lemma sequence_loop_filter_seq:
  "map seq_no (filter (\<lambda>p. direction p = d) (sequence_loop c s ps)) =
     map (\<lambda>n. Some (counter_of d c s + int n)) [0..<count_dir d ps]"
proof (induction ps rule: rev_induct)
  case Nil
  then show ?case by simp
next
  case (snoc p ps)
  then show ?case
    by (cases d; cases "direction p") (simp_all add: sequence_loop_append counter_of_def)
qed

lemma sequence_loop_ignores_dropped:
  "map seq_no (sequence_loop c s (map (\<lambda>p. p\<lparr>dropped := f p\<rparr>) ps)) =
   map seq_no (sequence_loop c s ps)"
  by (induction ps arbitrary: c s) auto

section \<open>The visible trace after a drop\<close>

lemma filter_eq_append_Cons:
  "filter P xs = ys @ y # zs \<Longrightarrow>
   \<exists>us vs. xs = us @ y # vs \<and> filter P us = ys \<and> P y \<and> filter P vs = zs"
proof (induction xs arbitrary: ys)
  case Nil
  then show ?case by simp
next
  case (Cons x xs)
  show ?case
  proof (cases "P x")
    case False
    with Cons.prems have "filter P xs = ys @ y # zs" by simp
    from Cons.IH [OF this] obtain us vs
      where "xs = us @ y # vs" "filter P us = ys" "P y" "filter P vs = zs" by blast
    with False have "x # xs = (x # us) @ y # vs \<and> filter P (x # us) = ys \<and> P y \<and> filter P vs = zs"
      by simp
    then show ?thesis by blast
  next
    case True
    show ?thesis
    proof (cases ys)
      case Nil
      with True Cons.prems have "x # xs = [] @ y # xs \<and> filter P [] = ys \<and> P y \<and> filter P xs = zs"
        by simp
      then show ?thesis by blast
    next
      case (Cons y' ys')
      with True Cons.prems have x: "y' = x" and "filter P xs = ys' @ y # zs" by simp_all
      from Cons.IH [OF this(2)] obtain us vs
        where "xs = us @ y # vs" "filter P us = ys'" "P y" "filter P vs = zs" by blast
      with True x Cons have "x # xs = (x # us) @ y # vs \<and> filter P (x # us) = ys \<and> P y \<and> filter P vs = zs"
        by simp
      then show ?thesis by blast
    qed
  qed
qed

lemma sequence_loop_index [simp]: "map index (sequence_loop c s ps) = map index ps"
  by (induction ps arbitrary: c s) auto

lemma sequence_loop_dropped [simp]: "map dropped (sequence_loop c s ps) = map dropped ps"
  by (induction ps arbitrary: c s) auto

lemma sequence_loop_not_dropped:
  assumes "\<forall>p \<in> set ps. \<not> dropped p"
  shows "\<forall>p \<in> set (sequence_loop c s ps). \<not> dropped p"
  using assms by (induction ps arbitrary: c s) auto

lemma count_dir_map_direction:
  "map direction xs = map direction ys \<Longrightarrow> count_dir d xs = count_dir d ys"
proof (induction xs arbitrary: ys)
  case Nil
  then show ?case by simp
next
  case (Cons x xs)
  then obtain y ys' where "ys = y # ys'" by (cases ys) auto
  with Cons show ?case by auto
qed

lemma sequence_loop_split:
  assumes "sequence_loop c s ps = us @ b # vs"
  shows "seq_no b = Some (counter_of (direction b) c s + int (count_dir (direction b) us))"
proof -
  let ?i = "length us"
  have len: "length ps = length us + Suc (length vs)"
    using arg_cong [OF assms, of length] by simp
  then have i: "?i < length ps" by simp
  have b: "b = sequence_loop c s ps ! ?i" using assms by simp
  have us: "us = take ?i (sequence_loop c s ps)" using assms by simp
  have "map direction us = take ?i (map direction (sequence_loop c s ps))"
    by (subst us) (simp only: take_map)
  then have "map direction us = map direction (take ?i ps)"
    by (simp add: take_map)
  then have cnt: "count_dir d us = count_dir d (take ?i ps)" for d
    by (rule count_dir_map_direction)
  show ?thesis
    unfolding b using sequence_loop_nth [OF i, of c s] cnt by simp
qed

lemma visible_after_drop:
  assumes "\<forall>p \<in> set base. \<not> dropped p"
  shows "filter_visible_packets (apply_drop_indices base ds)
         = filter (\<lambda>p. index p \<notin> set ds) base"
  using assms
  by (induction base) (auto simp: filter_visible_packets_def apply_drop_indices_def)

lemma post_attack_nth:
  assumes nd: "\<forall>p \<in> set packets. \<not> dropped p"
    and k: "k < length (visible_after_attack (compute_sequence_numbers packets) ds)"
  shows "\<exists>us b vs. compute_sequence_numbers packets = us @ b # vs
           \<and> index b \<notin> set ds
           \<and> seq_no b = Some (int (count_dir (direction b) us))
           \<and> visible_after_attack (compute_sequence_numbers packets) ds ! k
               = b\<lparr>seq_no := Some (int (count_dir (direction b)
                                        (filter (\<lambda>p. index p \<notin> set ds) us)))\<rparr>"
proof -
  let ?base = "compute_sequence_numbers packets"
  let ?keep = "\<lambda>p. index p \<notin> set ds"
  let ?vis = "filter ?keep ?base"
  have nd': "\<forall>p \<in> set ?base. \<not> dropped p"
    using sequence_loop_not_dropped [OF nd] by (simp add: compute_sequence_numbers_def)
  have after: "visible_after_attack ?base ds = sequence_loop 0 0 ?vis"
    unfolding visible_after_drop [OF nd']
    by (simp add: compute_sequence_numbers_def)
  from k have kv: "k < length ?vis" by (simp add: after)
  have "?vis = take k ?vis @ ?vis ! k # drop (Suc k) ?vis"
    using kv by (rule id_take_nth_drop)
  from filter_eq_append_Cons [OF this] obtain us vs
    where base: "?base = us @ ?vis ! k # vs" and tk: "filter ?keep us = take k ?vis"
      and keep: "?keep (?vis ! k)" by blast
  let ?b = "?vis ! k"
  have sb: "seq_no ?b = Some (int (count_dir (direction ?b) us))"
    using sequence_loop_split [of 0 0 packets us ?b vs] base
    by (simp add: compute_sequence_numbers_def counter_of_def)
  have "visible_after_attack ?base ds ! k =
        ?b\<lparr>seq_no := Some (int (count_dir (direction ?b) (take k ?vis)))\<rparr>"
    using sequence_loop_nth [OF kv, of 0 0] by (simp add: after counter_of_def)
  with tk have "visible_after_attack ?base ds ! k =
        ?b\<lparr>seq_no := Some (int (count_dir (direction ?b) (filter ?keep us)))\<rparr>" by simp
  with base keep sb show ?thesis by blast
qed

lemma count_dir_filter_split:
  "count_dir d us = count_dir d (filter P us) + count_dir d (filter (\<lambda>p. \<not> P p) us)"
  by (induction us) auto

lemma count_dir_zero_iff: "count_dir d us = 0 \<longleftrightarrow> (\<forall>u \<in> set us. direction u \<noteq> d)"
  by (induction us) auto

section \<open>Looking a baseline packet up by its index\<close>

lemma distinct_map_eq:
  "distinct (map f xs) \<Longrightarrow> x \<in> set xs \<Longrightarrow> y \<in> set xs \<Longrightarrow> f x = f y \<Longrightarrow> x = y"
  by (auto simp: distinct_map dest: inj_onD)

lemma filter_eq_distinct:
  "distinct xs \<Longrightarrow> filter (\<lambda>p. p = x) xs = (if x \<in> set xs then [x] else [])"
  by (induction xs) auto

lemma base_loop_other:
  "i \<notin> index ` set ps \<Longrightarrow>
   foldl (\<lambda>m pkt. case seq_no pkt of None \<Rightarrow> m | Some s \<Rightarrow> m(index pkt \<mapsto> s)) m ps i = m i"
  by (induction ps arbitrary: m) (auto split: option.splits)

lemma base_loop_distinct:
  "distinct (map index ps) \<Longrightarrow> b \<in> set ps \<Longrightarrow>
   foldl (\<lambda>m pkt. case seq_no pkt of None \<Rightarrow> m | Some s \<Rightarrow> m(index pkt \<mapsto> s)) m ps (index b)
     = (case seq_no b of None \<Rightarrow> m (index b) | Some s \<Rightarrow> Some s)"
proof (induction ps arbitrary: m)
  case Nil
  then show ?case by simp
next
  case (Cons p ps)
  show ?case
  proof (cases "b = p")
    case True
    with Cons.prems have "index b \<notin> index ` set ps" by auto
    from base_loop_other [OF this] True show ?thesis by (simp split: option.splits)
  next
    case False
    with Cons.prems have b: "b \<in> set ps" and d: "distinct (map index ps)"
      and ne: "index p \<noteq> index b" by auto
    from Cons.IH [OF d b] ne show ?thesis by (simp split: option.splits)
  qed
qed

lemma base_seq_by_index_distinct:
  "distinct (map index baseline) \<Longrightarrow> b \<in> set baseline \<Longrightarrow>
   base_seq_by_index baseline (index b) = seq_no b"
  unfolding base_seq_by_index_def
  by (subst base_loop_distinct) (auto split: option.splits)

lemma base_seq_by_index_absent:
  "i \<notin> index ` set baseline \<Longrightarrow> base_seq_by_index baseline i = None"
  unfolding base_seq_by_index_def by (subst base_loop_other) auto

lemma compute_sequence_numbers_distinct:
  "distinct (map index packets) \<Longrightarrow> distinct (map index (compute_sequence_numbers packets))"
  by (simp add: compute_sequence_numbers_def)

lemma dropped_in_prefix_count:
  assumes dist: "distinct (map index base)"
    and base: "base = us @ b # vs"
    and dp: "dp \<in> set base" "index dp = i"
  shows "count_dir d (filter (\<lambda>p. \<not> index p \<notin> set [i]) us)
         = (if dp \<in> set us \<and> direction dp = d then 1 else 0)"
proof -
  have dus: "distinct us" using dist base by (auto simp: distinct_map)
  have "filter (\<lambda>p. \<not> index p \<notin> set [i]) us = filter (\<lambda>p. p = dp) us"
  proof (rule filter_cong [OF refl])
    fix p assume "p \<in> set us"
    then have "p \<in> set base" using base by simp
    then show "(\<not> index p \<notin> set [i]) = (p = dp)"
      using distinct_map_eq [OF dist _ dp(1), of p] dp(2) by auto
  qed
  also have "\<dots> = (if dp \<in> set us then [dp] else [])" by (rule filter_eq_distinct [OF dus])
  finally show ?thesis by simp
qed

section \<open>The rows of the diff\<close>

lemma earlier_positions:
  assumes "base = us @ b # vs"
  shows "(\<exists>u \<in> set us. P u) \<longleftrightarrow> (\<exists>j' < length us. P (base ! j'))"
proof
  assume "\<exists>u \<in> set us. P u"
  then obtain j' where "j' < length us" "P (us ! j')" by (auto simp: in_set_conv_nth)
  then show "\<exists>j' < length us. P (base ! j')" using assms by (auto simp: nth_append)
next
  assume "\<exists>j' < length us. P (base ! j')"
  then obtain j' where "j' < length us" "P (base ! j')" by blast
  then have "P (us ! j')" using assms by (simp add: nth_append)
  with \<open>j' < length us\<close> show "\<exists>u \<in> set us. P u" by auto
qed

lemma build_diff_nth:
  "k < length after_attack \<Longrightarrow>
   build_diff baseline after_attack ! k =
     \<lparr>row_index = index (after_attack ! k),
      row_direction = direction_value (direction (after_attack ! k)),
      row_msg_type = msg_type (after_attack ! k),
      seq_before = base_seq_by_index baseline (index (after_attack ! k)),
      seq_after = seq_no (after_attack ! k),
      changed = (base_seq_by_index baseline (index (after_attack ! k)) \<noteq> None
                 \<and> seq_no (after_attack ! k) \<noteq> None
                 \<and> base_seq_by_index baseline (index (after_attack ! k)) \<noteq> seq_no (after_attack ! k))\<rparr>"
  by (simp add: build_diff_def Let_def)

lemma diff_end_to_end:
  assumes dist: "distinct (map index packets)"
    and nd: "\<forall>p \<in> set packets. \<not> dropped p"
    and k: "k < length (visible_after_attack (compute_sequence_numbers packets) ds)"
  shows "\<exists>j < length packets.
           index (compute_sequence_numbers packets ! j)
             = index (visible_after_attack (compute_sequence_numbers packets) ds ! k)
         \<and> seq_before (build_diff (compute_sequence_numbers packets)
                (visible_after_attack (compute_sequence_numbers packets) ds) ! k)
             = seq_no (compute_sequence_numbers packets ! j)
         \<and> (changed (build_diff (compute_sequence_numbers packets)
                (visible_after_attack (compute_sequence_numbers packets) ds) ! k)
            \<longleftrightarrow> (\<exists>j' < j. direction (compute_sequence_numbers packets ! j')
                              = direction (compute_sequence_numbers packets ! j)
                          \<and> index (compute_sequence_numbers packets ! j') \<in> set ds))"
proof -
  let ?base = "compute_sequence_numbers packets"
  let ?after = "visible_after_attack ?base ds"
  let ?keep = "\<lambda>p. index p \<notin> set ds"
  have dbase: "distinct (map index ?base)" by (rule compute_sequence_numbers_distinct [OF dist])
  from post_attack_nth [OF nd k] obtain us b vs
    where base: "?base = us @ b # vs" and keep: "index b \<notin> set ds"
      and sb: "seq_no b = Some (int (count_dir (direction b) us))"
      and q: "?after ! k = b\<lparr>seq_no := Some (int (count_dir (direction b) (filter ?keep us)))\<rparr>"
    by auto
  let ?j = "length us"
  have j: "?j < length packets"
    using arg_cong [OF base, of length] by (simp add: compute_sequence_numbers_def)
  have bj: "?base ! ?j = b" using base by simp
  have bin: "b \<in> set ?base" using base by simp
  have before: "base_seq_by_index ?base (index (?after ! k)) = seq_no b"
    using base_seq_by_index_distinct [OF dbase bin] q by simp
  have "changed (build_diff ?base ?after ! k)
        \<longleftrightarrow> count_dir (direction b) us \<noteq> count_dir (direction b) (filter ?keep us)"
    using build_diff_nth [OF k, of ?base] before sb q by simp
  also have "\<dots> \<longleftrightarrow> count_dir (direction b) (filter (\<lambda>p. \<not> ?keep p) us) \<noteq> 0"
    using count_dir_filter_split [of "direction b" us ?keep] by simp
  also have "\<dots> \<longleftrightarrow> (\<exists>u \<in> set us. direction u = direction b \<and> index u \<in> set ds)"
    by (auto simp: count_dir_zero_iff)
  also have "\<dots> \<longleftrightarrow> (\<exists>j' < ?j. direction (?base ! j') = direction b \<and> index (?base ! j') \<in> set ds)"
    by (rule earlier_positions [OF base])
  finally have ch: "changed (build_diff ?base ?after ! k)
        \<longleftrightarrow> (\<exists>j' < ?j. direction (?base ! j') = direction (?base ! ?j)
                         \<and> index (?base ! j') \<in> set ds)"
    using bj by simp
  have "index (?base ! ?j) = index (?after ! k)" using bj q by simp
  moreover have "seq_before (build_diff ?base ?after ! k) = seq_no (?base ! ?j)"
    using build_diff_nth [OF k, of ?base] before bj by simp
  ultimately show ?thesis using j ch by blast
qed

section \<open>The loader, item by item\<close>

lemma load_items_append_error:
  "load_items io so path idx pre = Inr loaded \<Longrightarrow>
   load_item io so path (idx + int (length pre)) item = Inl e \<Longrightarrow>
   load_items io so path idx (pre @ item # post) = Inl e"
proof (induction pre arbitrary: idx loaded)
  case Nil
  then show ?case by simp
next
  case (Cons r pre)
  from Cons.prems(1) obtain pkt rest
    where r: "load_item io so path idx r = Inr pkt"
      and rest: "load_items io so path (idx + 1) pre = Inr rest"
    by (auto split: sum.splits)
  from Cons.prems(2) have "load_item io so path (idx + 1 + int (length pre)) item = Inl e"
    by (simp add: algebra_simps)
  from Cons.IH [OF rest this] r show ?case by simp
qed

lemma load_items_append_ok:
  "load_items io so path idx pre = Inr loaded \<Longrightarrow>
   load_item io so path (idx + int (length pre)) item = Inr pkt \<Longrightarrow>
   load_items io so path idx (pre @ [item]) = Inr (loaded @ [pkt])"
proof (induction pre arbitrary: idx loaded)
  case Nil
  then show ?case by simp
next
  case (Cons r pre)
  from Cons.prems(1) obtain p rest
    where r: "load_item io so path idx r = Inr p"
      and rest: "load_items io so path (idx + 1) pre = Inr rest"
      and loaded: "loaded = p # rest"
    by (auto split: sum.splits)
  from Cons.prems(2) have "load_item io so path (idx + 1 + int (length pre)) item = Inr pkt"
    by (simp add: algebra_simps)
  from Cons.IH [OF rest this] r loaded show ?case by simp
qed

lemma load_item_converted_payload_len:
  "map_of entry ''direction'' = Some v \<Longrightarrow> Direction_of v = Some d \<Longrightarrow>
   map_of entry ''payload_len'' = Some len \<Longrightarrow> py_int io len = Inr n \<Longrightarrow>
   map_of entry ''msg_type'' = Some ty \<Longrightarrow>
   load_item io so path idx (PDict entry) = Inr (new_Packet idx d n (py_str so ty))"
  by (simp add: load_item_def getitem_def)

lemma load_item_invalid_direction:
  "map_of entry ''direction'' = Some (PStr s) \<Longrightarrow> s \<noteq> ''C->S'' \<Longrightarrow> s \<noteq> ''S->C'' \<Longrightarrow>
   load_item io so path idx (PDict entry)
     = Inl (ValueError (''Invalid direction '' @ quoted s @ '' in '' @ path))"
  by (simp add: load_item_def getitem_def Direction_of_def py_str_def)

lemma load_item_missing_payload_len:
  "map_of entry ''direction'' = Some v \<Longrightarrow> Direction_of v \<noteq> None \<Longrightarrow>
   map_of entry ''payload_len'' = None \<Longrightarrow>
   load_item io so path idx (PDict entry) = Inl (KeyError ''payload_len'')"
  by (auto simp: load_item_def getitem_def)

lemma load_item_bad_payload_len:
  "map_of entry ''direction'' = Some v \<Longrightarrow> Direction_of v \<noteq> None \<Longrightarrow>
   map_of entry ''payload_len'' = Some len \<Longrightarrow> py_int io len = Inl e \<Longrightarrow>
   load_item io so path idx (PDict entry) = Inl e"
  by (auto simp: load_item_def getitem_def)

section \<open>The branches of the selector\<close>

lemma isinstance_simps [simp]:
  "isinstance_dict (PDict d)" "\<not> isinstance_dict PNone" "\<not> isinstance_dict (PStr s)"
  "isinstance_str (PStr s)" "\<not> isinstance_str PNone"
  "isinstance_list (PList xs)" "\<not> isinstance_list (PStr s)" "\<not> isinstance_list PNone"
  by (simp_all add: isinstance_dict_def isinstance_str_def isinstance_list_def)

lemma isinstance_dict_iff: "isinstance_dict v \<longleftrightarrow> (\<exists>d. v = PDict d)"
  by (cases v) (simp_all add: isinstance_dict_def)

lemma isinstance_str_iff: "isinstance_str v \<longleftrightarrow> (\<exists>s. v = PStr s)"
  by (cases v) (simp_all add: isinstance_str_def)

lemma isinstance_list_iff: "isinstance_list v \<longleftrightarrow> (\<exists>xs. v = PList xs)"
  by (cases v) (simp_all add: isinstance_list_def)

lemma int_list_ints [simp]: "int_list io (map PInt ns) = Inr ns"
  by (induction ns) simp_all

lemma select_profile_branch:
  assumes "map_of config ''profiles'' = Some (PDict profiles)"
    and "map_of config ''active_profile'' = Some (PStr name)"
  shows "select_drop_indices io config =
     (let profile = dict_get profiles name PNone
      in if \<not> isinstance_dict profile then
           Inl (ValueError (''Profile '' @ quoted name @ '' not found or not a mapping''))
         else
           (let drop_indices = dict_get (the_dict profile) ''drop_indices'' (PList [])
            in if \<not> isinstance_list drop_indices then
                 Inl (ValueError (''Profile '' @ quoted name @ '' has invalid ''
                                  @ quoted ''drop_indices''))
               else
                 (case int_list io (the_list drop_indices) of
                    Inl e \<Rightarrow> Inl e
                  | Inr indices \<Rightarrow>
                      Inr (indices, dict_get (the_dict profile) ''description''
                                      (PStr (''profile '' @ quoted name))))))"
proof -
  have "dict_get config ''profiles'' PNone = PDict profiles"
    and "dict_get config ''active_profile'' PNone = PStr name"
    using assms by (simp_all add: dict_get_def)
  then show ?thesis by (simp add: select_drop_indices_def Let_def split: sum.splits)
qed

lemma py_int_no_ValueError: "py_int io v \<noteq> Inl (ValueError m)"
  by (cases v) (simp_all split: option.splits)

lemma int_list_no_ValueError: "int_list io vs \<noteq> Inl (ValueError m)"
  by (induction vs) (auto simp: py_int_no_ValueError split: sum.splits)

lemma select_top_level_branch:
  assumes "\<forall>s. map_of config ''active_profile'' \<noteq> Some (PStr s)"
  shows "select_drop_indices io config =
     (let drop_indices = dict_get config ''drop_indices'' (PList [])
      in if \<not> isinstance_list drop_indices then
           Inl (ValueError (''Config key '' @ quoted ''drop_indices''
                            @ '' must be a list of integers''))
         else
           (case int_list io (the_list drop_indices) of
              Inl e \<Rightarrow> Inl e
            | Inr indices \<Rightarrow> Inr (indices, PStr ''top-level drop_indices'')))"
proof -
  have "\<not> isinstance_str (dict_get config ''active_profile'' PNone)"
    using assms by (auto simp: dict_get_def isinstance_str_iff split: option.splits)
  then show ?thesis by (simp add: select_drop_indices_def Let_def)
qed

section \<open>The example trace, evaluated\<close>

lemma demo_baseline:
  "compute_sequence_numbers demo_trace =
     [(new_Packet 0 CLIENT_TO_SERVER 120 ''KEXINIT'')\<lparr>seq_no := Some 0\<rparr>,
      (new_Packet 1 SERVER_TO_CLIENT 120 ''KEXINIT'')\<lparr>seq_no := Some 0\<rparr>,
      (new_Packet 2 CLIENT_TO_SERVER 48 ''KEX_ECDH_INIT'')\<lparr>seq_no := Some 1\<rparr>,
      (new_Packet 3 SERVER_TO_CLIENT 96 ''KEX_ECDH_REPLY'')\<lparr>seq_no := Some 1\<rparr>,
      (new_Packet 4 CLIENT_TO_SERVER 16 ''NEWKEYS'')\<lparr>seq_no := Some 2\<rparr>]"
  by (simp add: demo_trace_def compute_sequence_numbers_def new_Packet_def)

lemma demo_after_drop_2:
  "compute_sequence_numbers (filter_visible_packets
      (apply_drop_indices (compute_sequence_numbers demo_trace) [2])) =
     [(new_Packet 0 CLIENT_TO_SERVER 120 ''KEXINIT'')\<lparr>seq_no := Some 0\<rparr>,
      (new_Packet 1 SERVER_TO_CLIENT 120 ''KEXINIT'')\<lparr>seq_no := Some 0\<rparr>,
      (new_Packet 3 SERVER_TO_CLIENT 96 ''KEX_ECDH_REPLY'')\<lparr>seq_no := Some 1\<rparr>,
      (new_Packet 4 CLIENT_TO_SERVER 16 ''NEWKEYS'')\<lparr>seq_no := Some 1\<rparr>]"
  unfolding demo_baseline
  by (simp add: compute_sequence_numbers_def new_Packet_def apply_drop_indices_def
        filter_visible_packets_def)

lemma demo_trace_wf:
  "distinct (map index demo_trace)" "\<forall>p \<in> set demo_trace. \<not> dropped p"
  by (simp_all add: demo_trace_def new_Packet_def)

lemma demo_diff_row_3:
  "build_diff (compute_sequence_numbers demo_trace)
      (visible_after_attack (compute_sequence_numbers demo_trace) [2]) ! 3
   = \<lparr>row_index = 4, row_direction = ''C->S'', row_msg_type = ''NEWKEYS'',
      seq_before = Some 2, seq_after = Some 1, changed = True\<rparr>"
  unfolding demo_after_drop_2
  unfolding demo_baseline
  by (simp add: build_diff_def base_seq_by_index_def new_Packet_def)

section \<open>Random selection\<close>

lemma first_k_sample_contract: "sample_without_replacement first_k_sample"
  unfolding sample_without_replacement_def
proof (intro allI impI)
  fix g :: nat and population :: "int list" and k
  assume k: "k \<le> length population"
  have "map (nth population) [0..<k] = take k population"
    using k by (simp add: list_eq_iff_nth_eq)
  then have "fst (first_k_sample g population k) = map (nth population) (rev [0..<k])"
    by (simp add: first_k_sample_def rev_map [symmetric])
  moreover have "distinct (rev [0..<k])" "length (rev [0..<k]) = k"
    "\<forall>j \<in> set (rev [0..<k]). j < length population"
    using k by auto
  ultimately show "\<exists>positions. distinct positions \<and> length positions = k
            \<and> (\<forall>j \<in> set positions. j < length population)
            \<and> fst (first_k_sample g population k) = map (nth population) positions"
    by blast
qed

lemma load_items_index:
  "load_items io so path idx raw = Inr packets \<Longrightarrow>
   map index packets = map (\<lambda>j. idx + int j) [0..<length raw]"
proof (induction raw arbitrary: idx packets)
  case Nil
  then show ?case by simp
next
  case (Cons item raw)
  from Cons.prems obtain pkt rest
    where item: "load_item io so path idx item = Inr pkt"
      and rest: "load_items io so path (idx + 1) raw = Inr rest"
      and packets: "packets = pkt # rest"
    by (auto split: sum.splits)
  from item have "index pkt = idx"
    by (auto simp: load_item_def new_Packet_def split: sum.splits option.splits)
  moreover have "map (\<lambda>j. idx + int j) [0..<length (item # raw)]
                 = idx # map (\<lambda>j. idx + 1 + int j) [0..<length raw]"
    by (simp add: upt_conv_Cons map_Suc_upt [symmetric] del: upt_Suc)
  ultimately show ?case using Cons.IH [OF rest] packets by simp
qed

lemma load_packet_trace_sorted_distinct:
  assumes "load_packet_trace io so path raw = Inr packets"
  shows "sorted (map index packets)" "distinct (map index packets)"
proof -
  have m: "map index packets = map int [0..<length raw]"
    using load_items_index [of io so path 0 raw packets] assms
    by (simp add: load_packet_trace_def)
  show "sorted (map index packets)" unfolding m by (rule sorted_wrt_map_mono [OF sorted_upt]) simp
  show "distinct (map index packets)" unfolding m by (simp add: distinct_map inj_on_def)
qed

lemma load_items_fresh:
  "load_items io so path idx raw = Inr packets \<Longrightarrow>
   \<forall>p \<in> set packets. \<not> dropped p \<and> seq_no p = None"
proof (induction raw arbitrary: idx packets)
  case Nil
  then show ?case by simp
next
  case (Cons item raw)
  from Cons.prems obtain pkt rest
    where item: "load_item io so path idx item = Inr pkt"
      and rest: "load_items io so path (idx + 1) raw = Inr rest"
      and packets: "packets = pkt # rest"
    by (auto split: sum.splits)
  from item have "\<not> dropped pkt \<and> seq_no pkt = None"
    by (auto simp: load_item_def new_Packet_def split: sum.splits option.splits)
  with Cons.IH [OF rest] packets show ?case by simp
qed

lemma loaded_trace_well_formed:
  assumes "load_packet_trace io so path raw = Inr packets"
  shows "distinct (map index packets)"
    and "\<forall>p \<in> set packets. \<not> dropped p"
    and "\<forall>p \<in> set packets. seq_no p = None"
    and "map index packets = map int [0..<length raw]"
proof -
  show "distinct (map index packets)" by (rule load_packet_trace_sorted_distinct(2) [OF assms])
  show "\<forall>p \<in> set packets. \<not> dropped p" "\<forall>p \<in> set packets. seq_no p = None"
    using load_items_fresh [of io so path 0 raw packets] assms
    by (simp_all add: load_packet_trace_def)
  show "map index packets = map int [0..<length raw]"
    using load_items_index [of io so path 0 raw packets] assms
    by (simp add: load_packet_trace_def)
qed

lemma client_indices_sorted_distinct:
  assumes "sorted (map index packets)" "distinct (map index packets)"
  shows "sorted (client_indices (compute_sequence_numbers packets))"
    and "distinct (client_indices (compute_sequence_numbers packets))"
proof -
  let ?base = "compute_sequence_numbers packets"
  have "map index ?base = map index packets" by (simp add: compute_sequence_numbers_def)
  with assms have s: "sorted (map index ?base)" and d: "distinct (map index ?base)" by simp_all
  show "sorted (client_indices ?base)"
    unfolding client_indices_def using s by (rule sorted_filter)
  show "distinct (client_indices ?base)"
    unfolding client_indices_def using d by (rule distinct_map_filter)
qed

lemma sample_drawn:
  assumes smp: "sample_without_replacement sample"
    and k: "k \<le> length population"
    and d: "distinct population"
  shows "distinct (fst (sample g population k))"
    and "length (fst (sample g population k)) = k"
    and "set (fst (sample g population k)) \<subseteq> set population"
    and "k = length population \<Longrightarrow> set (fst (sample g population k)) = set population"
proof -
  from smp k obtain positions
    where dp: "distinct positions" and lp: "length positions = k"
      and bound: "\<forall>j \<in> set positions. j < length population"
      and eq: "fst (sample g population k) = map (nth population) positions"
    unfolding sample_without_replacement_def by blast
  have sub: "set positions \<subseteq> {..<length population}" using bound by auto
  have "inj_on (nth population) (set positions)"
    using d bound by (intro inj_on_nth) auto
  with dp show "distinct (fst (sample g population k))" by (simp add: eq distinct_map)
  show "length (fst (sample g population k)) = k" by (simp add: eq lp)
  show "set (fst (sample g population k)) \<subseteq> set population"
    using bound by (auto simp: eq)
  show "set (fst (sample g population k)) = set population" if "k = length population"
  proof -
    have "card (set positions) = length population"
      using dp lp that by (simp add: distinct_card)
    with sub have "set positions = {..<length population}"
      by (intro card_subset_eq) auto
    then have "set (map (nth population) positions) = nth population ` {..<length population}"
      by simp
    also have "\<dots> = set population" by (auto simp: set_conv_nth)
    finally show ?thesis by (simp add: eq)
  qed
qed

lemma drop_all_clients:
  assumes "set chosen = set (client_indices baseline)"
  shows "count_dir CLIENT_TO_SERVER (visible_after_attack baseline chosen) = 0"
proof -
  have "\<forall>p \<in> set (filter_visible_packets (apply_drop_indices baseline chosen)).
          direction p \<noteq> CLIENT_TO_SERVER"
    using assms
    by (auto simp: filter_visible_packets_def apply_drop_indices_def client_indices_def)
  then have "count_dir CLIENT_TO_SERVER (filter_visible_packets (apply_drop_indices baseline chosen)) = 0"
    by (simp add: count_dir_zero_iff)
  then show ?thesis by (simp add: compute_sequence_numbers_def)
qed

lemma load_item_path:
  "load_item io so path idx item = Inr pkt \<Longrightarrow> load_item io so path' idx item = Inr pkt"
  by (auto simp: load_item_def split: sum.splits option.splits)

lemma load_items_path:
  "load_items io so path idx raw = Inr packets \<Longrightarrow> load_items io so path' idx raw = Inr packets"
proof (induction raw arbitrary: idx packets)
  case Nil
  then show ?case by simp
next
  case (Cons item raw)
  from Cons.prems obtain pkt rest
    where item: "load_item io so path idx item = Inr pkt"
      and rest: "load_items io so path (idx + 1) raw = Inr rest"
      and packets: "packets = pkt # rest"
    by (auto split: sum.splits)
  from load_item_path [OF item] Cons.IH [OF rest] packets show ?case by simp
qed

lemma load_packet_trace_path:
  "load_packet_trace io so path raw = Inr packets \<Longrightarrow>
   load_packet_trace io so path' raw = Inr packets"
  unfolding load_packet_trace_def by (rule load_items_path)

lemma cmd_explore_result:
  assumes "load_packet_trace io so pcap raw = Inr packets"
  shows "fst (cmd_explore io so seed_gen sample pcap raw random_drop seed g) =
     (if client_indices (compute_sequence_numbers packets) = [] then Inr No_client_packets
      else if max 0 (min random_drop
                  (int (length (client_indices (compute_sequence_numbers packets))))) = 0
      then Inr Nothing_to_drop
      else Inr (Explored
        (sort (fst (sample (if seed \<noteq> 0 then seed_gen seed else g)
                      (client_indices (compute_sequence_numbers packets))
                      (nat (max 0 (min random_drop
                         (int (length (client_indices (compute_sequence_numbers packets)))))))))) 
        (visible_after_attack (compute_sequence_numbers packets)
          (sort (fst (sample (if seed \<noteq> 0 then seed_gen seed else g)
                      (client_indices (compute_sequence_numbers packets))
                      (nat (max 0 (min random_drop
                         (int (length (client_indices (compute_sequence_numbers packets)))))))))))
        (print_sequence_diff_changed (compute_sequence_numbers packets)
          (visible_after_attack (compute_sequence_numbers packets)
            (sort (fst (sample (if seed \<noteq> 0 then seed_gen seed else g)
                      (client_indices (compute_sequence_numbers packets))
                      (nat (max 0 (min random_drop
                         (int (length (client_indices (compute_sequence_numbers packets)))))))))))))) "
  using assms
  by (simp add: cmd_explore_def random_sample_def Let_def case_prod_beta)

lemma api_run_explore_result:
  assumes "load_packet_trace io so pcap raw = Inr packets"
    and "map_of data ''mode'' = Some (PStr ''explore'')"
    and "py_int io (dict_get data ''random_drop'' (PInt 1)) = Inr random_drop"
    and "py_int io (dict_get data ''seed'' (PInt 0)) = Inr seed"
  shows "fst (api_run io so seed_gen sample raw config_document data g) =
     (if client_indices (compute_sequence_numbers packets) = [] \<or> random_drop \<le> 0
      then Inr (Explore_error (compute_sequence_numbers packets) (compute_sequence_numbers packets)
                  (build_diff (compute_sequence_numbers packets) (compute_sequence_numbers packets)))
      else Inr (Explore_response
        (sort (fst (sample (if seed \<noteq> 0 then seed_gen seed else g)
                      (client_indices (compute_sequence_numbers packets))
                      (nat (max 0 (min random_drop
                         (int (length (client_indices (compute_sequence_numbers packets))))))))))
        (compute_sequence_numbers packets)
        (visible_after_attack (compute_sequence_numbers packets)
          (sort (fst (sample (if seed \<noteq> 0 then seed_gen seed else g)
                      (client_indices (compute_sequence_numbers packets))
                      (nat (max 0 (min random_drop
                         (int (length (client_indices (compute_sequence_numbers packets)))))))))))
        (build_diff (compute_sequence_numbers packets)
          (visible_after_attack (compute_sequence_numbers packets)
            (sort (fst (sample (if seed \<noteq> 0 then seed_gen seed else g)
                      (client_indices (compute_sequence_numbers packets))
                      (nat (max 0 (min random_drop
                         (int (length (client_indices (compute_sequence_numbers packets))))))))))))))"
proof -
  have l: "load_packet_trace io so ''data/sample_trace.json'' raw = Inr packets"
    using assms(1) by (rule load_packet_trace_path)
  have m: "dict_get data ''mode'' (PStr ''baseline'') = PStr ''explore''"
    using assms(2) by (simp add: dict_get_def)
  show ?thesis
    unfolding api_run_def
    by (auto simp: l m assms(3,4) random_sample_def Let_def case_prod_beta)
qed

lemma picked_facts:
  assumes smp: "sample_without_replacement sample"
    and s: "sorted client" and d: "distinct client"
    and k: "0 < k" "k \<le> int (length client)"
  shows "sorted (sort (fst (sample g client (nat k))))"
    and "distinct (sort (fst (sample g client (nat k))))"
    and "int (length (sort (fst (sample g client (nat k))))) = k"
    and "set (sort (fst (sample g client (nat k)))) \<subseteq> set client"
    and "k = int (length client) \<Longrightarrow> sort (fst (sample g client (nat k))) = client"
proof -
  have nk: "nat k \<le> length client" using k by simp
  note f = sample_drawn [OF smp nk d, of g]
  show "sorted (sort (fst (sample g client (nat k))))" by simp
  show dd: "distinct (sort (fst (sample g client (nat k))))" using f(1) by simp
  show "int (length (sort (fst (sample g client (nat k))))) = k" using f(2) k by simp
  show "set (sort (fst (sample g client (nat k)))) \<subseteq> set client" using f(3) by simp
  show "sort (fst (sample g client (nat k))) = client" if "k = int (length client)"
  proof -
    have "nat k = length client" using that by simp
    from f(4) [OF this] have "set (sort (fst (sample g client (nat k)))) = set client" by simp
    with dd s d show ?thesis by (intro sorted_distinct_set_unique) simp_all
  qed
qed

lemma demo_raw_loads:
  "load_packet_trace ascii_int str_of path demo_raw =
     Inr [new_Packet 0 CLIENT_TO_SERVER 120 ''KEXINIT'',
          new_Packet 1 SERVER_TO_CLIENT 96 ''KEXINIT'',
          new_Packet 2 CLIENT_TO_SERVER 16 ''NEWKEYS'']"
  by (simp add: demo_raw_def load_packet_trace_def load_item_def getitem_def Direction_of_def
        py_str_def)

lemma demo_raw_clients:
  "client_indices (compute_sequence_numbers
      [new_Packet 0 CLIENT_TO_SERVER 120 ''KEXINIT'',
       new_Packet 1 SERVER_TO_CLIENT 96 ''KEXINIT'',
       new_Packet 2 CLIENT_TO_SERVER 16 ''NEWKEYS'']) = [0, 2]"
  by (simp add: client_indices_def compute_sequence_numbers_def new_Packet_def)

section \<open>Claims\<close>

text \<open>
  C1. \<^verbatim>\<open>compute_sequence_numbers\<close> returns a list of the same length and order: the
  packet at every position is the input packet at that position with only \<open>seq_no\<close>
  replaced, and the new \<open>seq_no\<close> is the packet's 0-based rank among the packets of
  its direction up to and including itself (their number minus one). Hence, for each
  direction, the sequence numbers read in input order are exactly \<open>0, ..., k - 1\<close>,
  \<open>k\<close> being the number of input packets of that direction. The \<open>dropped\<close> flag plays
  no part: whatever the flags are, the numbers are the same, so a packet that is
  marked dropped but still in the list consumes a counter slot.
\<close>

theorem compute_sequence_numbers_rank:
  "length (compute_sequence_numbers packets) = length packets
   \<and> (\<forall>i < length packets.
        compute_sequence_numbers packets ! i =
          (packets ! i)\<lparr>seq_no :=
             Some (int (count_dir (direction (packets ! i)) (take (Suc i) packets)) - 1)\<rparr>)
   \<and> (\<forall>d. map seq_no (filter (\<lambda>p. direction p = d) (compute_sequence_numbers packets))
          = map (\<lambda>n. Some (int n)) [0..<count_dir d packets])
   \<and> (\<forall>f. map seq_no (compute_sequence_numbers (map (\<lambda>p. p\<lparr>dropped := f p\<rparr>) packets))
          = map seq_no (compute_sequence_numbers packets))"
proof (intro conjI allI impI)
  show "length (compute_sequence_numbers packets) = length packets"
    by (simp add: compute_sequence_numbers_def)
next
  fix i assume i: "i < length packets"
  have "take (Suc i) packets = take i packets @ [packets ! i]"
    using i by (simp add: take_Suc_conv_app_nth)
  then have "int (count_dir (direction (packets ! i)) (take (Suc i) packets)) - 1
             = int (count_dir (direction (packets ! i)) (take i packets))"
    by simp
  then show "compute_sequence_numbers packets ! i =
          (packets ! i)\<lparr>seq_no :=
             Some (int (count_dir (direction (packets ! i)) (take (Suc i) packets)) - 1)\<rparr>"
    using sequence_loop_nth [OF i, of 0 0]
    by (simp add: compute_sequence_numbers_def counter_of_def)
next
  fix d
  show "map seq_no (filter (\<lambda>p. direction p = d) (compute_sequence_numbers packets))
          = map (\<lambda>n. Some (int n)) [0..<count_dir d packets]"
    using sequence_loop_filter_seq [of d 0 0 packets]
    by (simp add: compute_sequence_numbers_def counter_of_def)
next
  fix f
  show "map seq_no (compute_sequence_numbers (map (\<lambda>p. p\<lparr>dropped := f p\<rparr>) packets))
          = map seq_no (compute_sequence_numbers packets)"
    by (simp add: compute_sequence_numbers_def sequence_loop_ignores_dropped)
qed

theorem compute_sequence_numbers_rank_witness:
  "(2::nat) < length [new_Packet 0 CLIENT_TO_SERVER 10 ''KEXINIT'',
                      new_Packet 1 SERVER_TO_CLIENT 20 ''KEXINIT'',
                      new_Packet 2 CLIENT_TO_SERVER 30 ''NEWKEYS'']
   \<and> compute_sequence_numbers
         [new_Packet 0 CLIENT_TO_SERVER 10 ''KEXINIT'',
          new_Packet 1 SERVER_TO_CLIENT 20 ''KEXINIT'',
          new_Packet 2 CLIENT_TO_SERVER 30 ''NEWKEYS''] ! 2
       = (new_Packet 2 CLIENT_TO_SERVER 30 ''NEWKEYS'')\<lparr>seq_no := Some 1\<rparr>"
  using compute_sequence_numbers_rank
          [of "[new_Packet 0 CLIENT_TO_SERVER 10 ''KEXINIT'',
                new_Packet 1 SERVER_TO_CLIENT 20 ''KEXINIT'',
                new_Packet 2 CLIENT_TO_SERVER 30 ''NEWKEYS'']",
           THEN conjunct2, THEN conjunct1, rule_format, of 2]
  by (simp add: new_Packet_def)

text \<open>
  C2. A baseline is the numbered trace of the loader's packets: their indices are
  pairwise different and none is marked dropped (\<open>loaded_trace_well_formed\<close>). Let
  the packet \<open>dp\<close> of the baseline have index \<open>i\<close>, and let the baseline go through
  \<^verbatim>\<open>apply_drop_indices\<close> with the single index \<open>i\<close>, \<^verbatim>\<open>filter_visible_packets\<close> and
  \<^verbatim>\<open>compute_sequence_numbers\<close> again. Every packet \<open>q\<close> of the result is the baseline
  packet \<open>b\<close> with the same index, up to its sequence number, and is not the dropped
  one. If the direction of \<open>q\<close> differs from that of \<open>dp\<close>, its sequence number is
  the baseline one; if the direction is the same and the baseline rank of \<open>b\<close> is
  greater than that of \<open>dp\<close>, its sequence number is the baseline one minus 1.
\<close>

theorem single_drop_shift:
  assumes dist: "distinct (map index packets)"
    and nd: "\<forall>p \<in> set packets. \<not> dropped p"
    and dp: "dp \<in> set (compute_sequence_numbers packets)" "index dp = i"
    and q: "q \<in> set (compute_sequence_numbers (filter_visible_packets
                  (apply_drop_indices (compute_sequence_numbers packets) [i])))"
    and b: "b \<in> set (compute_sequence_numbers packets)" "index b = index q"
  shows "q = b\<lparr>seq_no := seq_no q\<rparr> \<and> index q \<noteq> i
       \<and> (direction q \<noteq> direction dp \<longrightarrow> seq_no q = seq_no b)
       \<and> (\<forall>r rd. direction q = direction dp \<and> seq_no b = Some r \<and> seq_no dp = Some rd \<and> rd < r
             \<longrightarrow> seq_no q = Some (r - 1))"
proof -
  let ?base = "compute_sequence_numbers packets"
  let ?keep = "\<lambda>p. index p \<notin> set [i]"
  have dbase: "distinct (map index ?base)" by (rule compute_sequence_numbers_distinct [OF dist])
  from q obtain k where k: "k < length (visible_after_attack ?base [i])"
    and qk: "visible_after_attack ?base [i] ! k = q" by (auto simp: in_set_conv_nth)
  from post_attack_nth [OF nd k] qk obtain us b' vs
    where base: "?base = us @ b' # vs" and keep: "index b' \<notin> set [i]"
      and sb: "seq_no b' = Some (int (count_dir (direction b') us))"
      and q': "q = b'\<lparr>seq_no := Some (int (count_dir (direction b') (filter ?keep us)))\<rparr>"
    by auto
  have "b' \<in> set ?base" using base by simp
  moreover have "index b = index b'" using b(2) q' by simp
  ultimately have bb: "b = b'" using distinct_map_eq [OF dbase b(1)] by blast
  have dirq: "direction q = direction b'" using q' by simp
  have sq: "seq_no q = Some (int (count_dir (direction b') (filter ?keep us)))" using q' by simp
  have split: "count_dir (direction b') us
        = count_dir (direction b') (filter ?keep us)
          + (if dp \<in> set us \<and> direction dp = direction b' then 1 else 0)"
    using count_dir_filter_split [of "direction b'" us ?keep]
          dropped_in_prefix_count [OF dbase base dp, of "direction b'"] by simp
  have c1: "q = b\<lparr>seq_no := seq_no q\<rparr> \<and> index q \<noteq> i" using q' bb keep by simp
  have c2: "seq_no q = seq_no b" if "direction q \<noteq> direction dp"
    using that split sq sb bb dirq by auto
  have c3: "seq_no q = Some (r - 1)"
    if h: "direction q = direction dp" "seq_no b = Some r" "seq_no dp = Some rd" "rd < r" for r rd
  proof -
    have r: "r = int (count_dir (direction b') us)" using h(2) sb bb by simp
    have "dp \<noteq> b'" using keep dp(2) by auto
    with dp(1) base have "dp \<in> set us \<or> dp \<in> set vs" by auto
    moreover have False if "dp \<in> set vs"
    proof -
      from that obtain v1 v2 where "vs = v1 @ dp # v2" by (auto dest: split_list)
      with base have "sequence_loop 0 0 packets = (us @ b' # v1) @ dp # v2"
        by (simp add: compute_sequence_numbers_def)
      from sequence_loop_split [OF this]
      have "seq_no dp = Some (int (count_dir (direction dp) (us @ b' # v1)))"
        by (simp add: counter_of_def)
      with h(1,3) dirq have "rd = int (count_dir (direction b') (us @ b' # v1))" by simp
      with r h(4) show False by simp
    qed
    ultimately have "dp \<in> set us" by blast
    with split h(1) dirq have "count_dir (direction b') us
        = count_dir (direction b') (filter ?keep us) + 1" by simp
    with sq r show ?thesis by simp
  qed
  from c1 c2 c3 show ?thesis by blast
qed

theorem single_drop_shift_witness:
  "(new_Packet 2 CLIENT_TO_SERVER 48 ''KEX_ECDH_INIT'')\<lparr>seq_no := Some 1\<rparr>
      \<in> set (compute_sequence_numbers demo_trace)
   \<and> (new_Packet 4 CLIENT_TO_SERVER 16 ''NEWKEYS'')\<lparr>seq_no := Some 1\<rparr>
      \<in> set (compute_sequence_numbers (filter_visible_packets
                (apply_drop_indices (compute_sequence_numbers demo_trace) [2])))
   \<and> (new_Packet 4 CLIENT_TO_SERVER 16 ''NEWKEYS'')\<lparr>seq_no := Some 2\<rparr>
      \<in> set (compute_sequence_numbers demo_trace)
   \<and> seq_no ((new_Packet 4 CLIENT_TO_SERVER 16 ''NEWKEYS'')\<lparr>seq_no := Some 1\<rparr>) = Some (2 - 1)"
proof -
  let ?dp = "(new_Packet 2 CLIENT_TO_SERVER 48 ''KEX_ECDH_INIT'')\<lparr>seq_no := Some 1\<rparr>"
  let ?q = "(new_Packet 4 CLIENT_TO_SERVER 16 ''NEWKEYS'')\<lparr>seq_no := Some 1\<rparr>"
  let ?b = "(new_Packet 4 CLIENT_TO_SERVER 16 ''NEWKEYS'')\<lparr>seq_no := Some 2\<rparr>"
  have dp: "?dp \<in> set (compute_sequence_numbers demo_trace)" "index ?dp = 2"
    unfolding demo_baseline by (simp_all add: new_Packet_def)
  have q: "?q \<in> set (compute_sequence_numbers (filter_visible_packets
                (apply_drop_indices (compute_sequence_numbers demo_trace) [2])))"
    unfolding demo_after_drop_2 by simp
  have b: "?b \<in> set (compute_sequence_numbers demo_trace)" "index ?b = index ?q"
    unfolding demo_baseline by (simp_all add: new_Packet_def)
  have r: "direction ?q = direction ?dp \<and> seq_no ?b = Some 2 \<and> seq_no ?dp = Some 1 \<and> (1::int) < 2"
    by (simp add: new_Packet_def)
  from single_drop_shift
         [OF demo_trace_wf dp q b, THEN conjunct2, THEN conjunct2, THEN conjunct2, rule_format, OF r]
  have "seq_no ?q = Some (2 - 1)" .
  with dp(1) q b(1) show ?thesis by blast
qed

text \<open>
  C3. \<^verbatim>\<open>build_diff\<close> makes one row for each packet of the post-drop trace, in order.
  The row's \<open>seq_before\<close> is the entry of the baseline dictionary under the packet's
  index, its \<open>seq_after\<close> the packet's own sequence number, and \<open>changed\<close> is true
  iff both are present and differ; \<^verbatim>\<open>print_sequence_diff\<close> prints \<^verbatim>\<open>yes\<close> in exactly
  those rows. With pairwise different indices the dictionary entry under a baseline
  packet's index is that packet's sequence number, and an index that no baseline
  packet has gets no entry. End to end, for a baseline numbered from packets with
  pairwise different indices none of which is marked dropped, and any list of indices
  to drop: the row of a surviving packet has \<open>changed\<close> true exactly when some
  packet of the same direction, earlier in the baseline, was dropped. Both functions
  only read the two traces: they are functions of the two lists and return rows, so
  the comparison changes neither trace.
\<close>

theorem build_diff_changed:
  "length (build_diff baseline after_attack) = length after_attack
   \<and> (\<forall>k < length after_attack.
        row_index (build_diff baseline after_attack ! k) = index (after_attack ! k)
        \<and> seq_before (build_diff baseline after_attack ! k)
            = base_seq_by_index baseline (index (after_attack ! k))
        \<and> seq_after (build_diff baseline after_attack ! k) = seq_no (after_attack ! k)
        \<and> (changed (build_diff baseline after_attack ! k) \<longleftrightarrow>
             (\<exists>x y. base_seq_by_index baseline (index (after_attack ! k)) = Some x
                    \<and> seq_no (after_attack ! k) = Some y \<and> x \<noteq> y))
        \<and> print_sequence_diff_changed baseline after_attack ! k
            = (if changed (build_diff baseline after_attack ! k) then ''yes'' else ''no''))
   \<and> (distinct (map index baseline) \<longrightarrow>
        (\<forall>b \<in> set baseline. base_seq_by_index baseline (index b) = seq_no b))
   \<and> (\<forall>i. i \<notin> index ` set baseline \<longrightarrow> base_seq_by_index baseline i = None)
   \<and> (distinct (map index packets) \<and> (\<forall>p \<in> set packets. \<not> dropped p) \<longrightarrow>
        (\<forall>k < length (visible_after_attack (compute_sequence_numbers packets) drop_indices).
           \<exists>j < length packets.
              index (compute_sequence_numbers packets ! j)
                = index (visible_after_attack (compute_sequence_numbers packets) drop_indices ! k)
            \<and> seq_before (build_diff (compute_sequence_numbers packets)
                   (visible_after_attack (compute_sequence_numbers packets) drop_indices) ! k)
                = seq_no (compute_sequence_numbers packets ! j)
            \<and> (changed (build_diff (compute_sequence_numbers packets)
                   (visible_after_attack (compute_sequence_numbers packets) drop_indices) ! k)
               \<longleftrightarrow> (\<exists>j' < j. direction (compute_sequence_numbers packets ! j')
                                 = direction (compute_sequence_numbers packets ! j)
                             \<and> index (compute_sequence_numbers packets ! j') \<in> set drop_indices))))"
proof (intro conjI allI impI ballI)
  show "length (build_diff baseline after_attack) = length after_attack"
    by (simp add: build_diff_def)
next
  fix k assume k: "k < length after_attack"
  note row = build_diff_nth [OF k, of baseline]
  show "row_index (build_diff baseline after_attack ! k) = index (after_attack ! k)"
    by (simp add: row)
  show "seq_before (build_diff baseline after_attack ! k)
            = base_seq_by_index baseline (index (after_attack ! k))"
    by (simp add: row)
  show "seq_after (build_diff baseline after_attack ! k) = seq_no (after_attack ! k)"
    by (simp add: row)
  show "changed (build_diff baseline after_attack ! k) \<longleftrightarrow>
             (\<exists>x y. base_seq_by_index baseline (index (after_attack ! k)) = Some x
                    \<and> seq_no (after_attack ! k) = Some y \<and> x \<noteq> y)"
    by (auto simp: row)
  show "print_sequence_diff_changed baseline after_attack ! k
            = (if changed (build_diff baseline after_attack ! k) then ''yes'' else ''no'')"
    using k by (simp add: row print_sequence_diff_changed_def Let_def)
next
  fix b assume "distinct (map index baseline)" "b \<in> set baseline"
  then show "base_seq_by_index baseline (index b) = seq_no b"
    by (rule base_seq_by_index_distinct)
next
  fix i assume "i \<notin> index ` set baseline"
  then show "base_seq_by_index baseline i = None" by (rule base_seq_by_index_absent)
next
  fix k
  assume wf: "distinct (map index packets) \<and> (\<forall>p \<in> set packets. \<not> dropped p)"
    and k: "k < length (visible_after_attack (compute_sequence_numbers packets) drop_indices)"
  from wf have d: "distinct (map index packets)" and nd: "\<forall>p \<in> set packets. \<not> dropped p"
    by simp_all
  show "\<exists>j < length packets.
              index (compute_sequence_numbers packets ! j)
                = index (visible_after_attack (compute_sequence_numbers packets) drop_indices ! k)
            \<and> seq_before (build_diff (compute_sequence_numbers packets)
                   (visible_after_attack (compute_sequence_numbers packets) drop_indices) ! k)
                = seq_no (compute_sequence_numbers packets ! j)
            \<and> (changed (build_diff (compute_sequence_numbers packets)
                   (visible_after_attack (compute_sequence_numbers packets) drop_indices) ! k)
               \<longleftrightarrow> (\<exists>j' < j. direction (compute_sequence_numbers packets ! j')
                                 = direction (compute_sequence_numbers packets ! j)
                             \<and> index (compute_sequence_numbers packets ! j') \<in> set drop_indices))"
    by (rule diff_end_to_end [OF d nd k])
qed

theorem build_diff_changed_witness:
  "(3::nat) < length (visible_after_attack (compute_sequence_numbers demo_trace) [2])
   \<and> changed (build_diff (compute_sequence_numbers demo_trace)
                (visible_after_attack (compute_sequence_numbers demo_trace) [2]) ! 3)
   \<and> (\<exists>j < length demo_trace.
          index (compute_sequence_numbers demo_trace ! j) = 4
        \<and> seq_no (compute_sequence_numbers demo_trace ! j) = Some 2
        \<and> (\<exists>j' < j. direction (compute_sequence_numbers demo_trace ! j')
                          = direction (compute_sequence_numbers demo_trace ! j)
                      \<and> index (compute_sequence_numbers demo_trace ! j') \<in> set [2]))"
proof -
  let ?base = "compute_sequence_numbers demo_trace"
  let ?after = "visible_after_attack ?base [2]"
  have k: "(3::nat) < length ?after" unfolding demo_after_drop_2 by simp
  have wf: "distinct (map index demo_trace) \<and> (\<forall>p \<in> set demo_trace. \<not> dropped p)"
    using demo_trace_wf by simp
  from build_diff_changed [of ?base ?after demo_trace "[2]",
         THEN conjunct2, THEN conjunct2, THEN conjunct2, THEN conjunct2, rule_format, OF wf k]
  obtain j where j: "j < length demo_trace"
    and ix: "index (?base ! j) = index (?after ! 3)"
    and sb: "seq_before (build_diff ?base ?after ! 3) = seq_no (?base ! j)"
    and ch: "changed (build_diff ?base ?after ! 3)
             \<longleftrightarrow> (\<exists>j' < j. direction (?base ! j') = direction (?base ! j)
                           \<and> index (?base ! j') \<in> set [2])"
    by blast
  have c: "changed (build_diff ?base ?after ! 3)" by (simp add: demo_diff_row_3)
  have "index (?after ! 3) = 4" unfolding demo_after_drop_2 by (simp add: new_Packet_def)
  with ix have ix4: "index (?base ! j) = 4" by simp
  have "seq_no (?base ! j) = Some 2" using sb by (simp add: demo_diff_row_3)
  with k c j ix4 ch show ?thesis by blast
qed

text \<open>
  C4. On a trace in which no packet is marked dropped, filtering the visible packets
  and then assigning sequence numbers gives the very list that assigning them to the
  original trace gives: the same packets in the same order, so the same \<open>seq_no\<close>
  for every \<open>index\<close>.
\<close>

theorem filter_then_assign_no_drops:
  assumes "\<forall>pkt \<in> set packets. \<not> dropped pkt"
  shows "compute_sequence_numbers (filter_visible_packets packets)
         = compute_sequence_numbers packets"
proof -
  have "filter_visible_packets packets = packets"
    using assms by (simp add: filter_visible_packets_def)
  then show ?thesis by simp
qed

theorem filter_then_assign_no_drops_witness:
  "compute_sequence_numbers
     (filter_visible_packets
        [new_Packet 0 CLIENT_TO_SERVER 10 ''KEXINIT'', new_Packet 1 SERVER_TO_CLIENT 20 ''KEXINIT''])
   = [(new_Packet 0 CLIENT_TO_SERVER 10 ''KEXINIT'')\<lparr>seq_no := Some 0\<rparr>,
      (new_Packet 1 SERVER_TO_CLIENT 20 ''KEXINIT'')\<lparr>seq_no := Some 0\<rparr>]"
proof -
  have "\<forall>pkt \<in> set [new_Packet 0 CLIENT_TO_SERVER 10 ''KEXINIT'',
                        new_Packet 1 SERVER_TO_CLIENT 20 ''KEXINIT'']. \<not> dropped pkt"
    by (simp add: new_Packet_def)
  from filter_then_assign_no_drops [OF this] show ?thesis
    by (simp add: compute_sequence_numbers_def new_Packet_def)
qed

text \<open>
  C5. \<^verbatim>\<open>apply_drop_indices\<close> returns a list of the same length and order. The packet
  at each position is the input packet with \<open>dropped\<close> set to true and every other
  field as it was when its \<open>index\<close> is among the targets, and the input packet
  itself otherwise. The function has no error path: its result is a plain list for
  every input. Targets that match no packet change nothing (removing them from the
  target list gives the same result), and only the set of targets matters, so a
  duplicated target has no further effect.
\<close>

theorem apply_drop_indices_contract:
  "length (apply_drop_indices packets drop_indices) = length packets
   \<and> (\<forall>i < length packets.
        apply_drop_indices packets drop_indices ! i =
          (if index (packets ! i) \<in> set drop_indices
           then (packets ! i)\<lparr>dropped := True\<rparr> else packets ! i)
        \<and> index (apply_drop_indices packets drop_indices ! i) = index (packets ! i)
        \<and> direction (apply_drop_indices packets drop_indices ! i) = direction (packets ! i)
        \<and> payload_len (apply_drop_indices packets drop_indices ! i) = payload_len (packets ! i)
        \<and> msg_type (apply_drop_indices packets drop_indices ! i) = msg_type (packets ! i)
        \<and> seq_no (apply_drop_indices packets drop_indices ! i) = seq_no (packets ! i))
   \<and> apply_drop_indices packets (filter (\<lambda>t. t \<in> index ` set packets) drop_indices)
       = apply_drop_indices packets drop_indices
   \<and> (\<forall>others. set others = set drop_indices \<longrightarrow>
          apply_drop_indices packets others = apply_drop_indices packets drop_indices)
   \<and> apply_drop_indices packets (drop_indices @ drop_indices)
       = apply_drop_indices packets drop_indices"
proof (intro conjI allI impI)
  show "length (apply_drop_indices packets drop_indices) = length packets"
    by (simp add: apply_drop_indices_def)
next
  fix i assume i: "i < length packets"
  then show "apply_drop_indices packets drop_indices ! i =
          (if index (packets ! i) \<in> set drop_indices
           then (packets ! i)\<lparr>dropped := True\<rparr> else packets ! i)"
    by (simp add: apply_drop_indices_def)
  from i show "index (apply_drop_indices packets drop_indices ! i) = index (packets ! i)"
    by (simp add: apply_drop_indices_def)
  from i show "direction (apply_drop_indices packets drop_indices ! i) = direction (packets ! i)"
    by (simp add: apply_drop_indices_def)
  from i show "payload_len (apply_drop_indices packets drop_indices ! i) = payload_len (packets ! i)"
    by (simp add: apply_drop_indices_def)
  from i show "msg_type (apply_drop_indices packets drop_indices ! i) = msg_type (packets ! i)"
    by (simp add: apply_drop_indices_def)
  from i show "seq_no (apply_drop_indices packets drop_indices ! i) = seq_no (packets ! i)"
    by (simp add: apply_drop_indices_def)
next
  show "apply_drop_indices packets (filter (\<lambda>t. t \<in> index ` set packets) drop_indices)
       = apply_drop_indices packets drop_indices"
    by (auto simp: apply_drop_indices_def)
next
  fix others assume "set others = set drop_indices"
  then show "apply_drop_indices packets others = apply_drop_indices packets drop_indices"
    by (simp add: apply_drop_indices_def)
next
  show "apply_drop_indices packets (drop_indices @ drop_indices)
       = apply_drop_indices packets drop_indices"
    by (simp add: apply_drop_indices_def)
qed

theorem apply_drop_indices_contract_witness:
  "(0::nat) < length [new_Packet 0 CLIENT_TO_SERVER 10 ''KEXINIT'',
                      new_Packet 1 SERVER_TO_CLIENT 20 ''KEXINIT'']
   \<and> apply_drop_indices
         [new_Packet 0 CLIENT_TO_SERVER 10 ''KEXINIT'',
          new_Packet 1 SERVER_TO_CLIENT 20 ''KEXINIT''] [0, 7, 0] ! 0
       = (new_Packet 0 CLIENT_TO_SERVER 10 ''KEXINIT'')\<lparr>dropped := True\<rparr>
   \<and> set [0, 7 :: int] = set [0, 7, 0]
   \<and> apply_drop_indices
         [new_Packet 0 CLIENT_TO_SERVER 10 ''KEXINIT'',
          new_Packet 1 SERVER_TO_CLIENT 20 ''KEXINIT''] [0, 7]
       = apply_drop_indices
           [new_Packet 0 CLIENT_TO_SERVER 10 ''KEXINIT'',
            new_Packet 1 SERVER_TO_CLIENT 20 ''KEXINIT''] [0, 7, 0]"
proof -
  let ?ps = "[new_Packet 0 CLIENT_TO_SERVER 10 ''KEXINIT'',
              new_Packet 1 SERVER_TO_CLIENT 20 ''KEXINIT'']"
  note c = apply_drop_indices_contract [of ?ps "[0, 7, 0]"]
  have s: "set [0, 7 :: int] = set [0, 7, 0]" by auto
  have "apply_drop_indices ?ps [0, 7, 0] ! 0 = (new_Packet 0 CLIENT_TO_SERVER 10 ''KEXINIT'')\<lparr>dropped := True\<rparr>"
    using c [THEN conjunct2, THEN conjunct1, rule_format, of 0] by (simp add: new_Packet_def)
  moreover have "apply_drop_indices ?ps [0, 7] = apply_drop_indices ?ps [0, 7, 0]"
    using c [THEN conjunct2, THEN conjunct2, THEN conjunct2, THEN conjunct1, rule_format, OF s] .
  ultimately show ?thesis using s by simp
qed

text \<open>
  C6, as stated, fails: a record whose \<^verbatim>\<open>payload_len\<close> is the JSON value \<^verbatim>\<open>true\<close>,
  which is not a number, loads without error, as a packet of payload length 1,
  because the loader passes the value through \<^verbatim>\<open>int\<close> and checks nothing else.
\<close>

theorem load_packet_trace_accepts_boolean:
  "load_packet_trace ascii_int plain_str ''data/sample_trace.json''
     [PDict [(''direction'', PStr ''C->S''), (''payload_len'', PBool True),
             (''msg_type'', PStr ''KEXINIT'')]]
   = Inr [new_Packet 0 CLIENT_TO_SERVER 1 ''KEXINIT'']"
  by (simp add: load_packet_trace_def load_item_def getitem_def Direction_of_def py_str_def)

text \<open>
  C6, amended. Let the records before some record of the raw list load without error.
  If that record's direction is a string other than \<^verbatim>\<open>C->S\<close> and \<^verbatim>\<open>S->C\<close>, the load
  fails with the \<^verbatim>\<open>ValueError\<close> whose message names the string and the path of the
  trace (InvalidDirection). If its direction is valid and \<^verbatim>\<open>payload_len\<close> is missing,
  the load fails with \<^verbatim>\<open>KeyError\<close>; if \<^verbatim>\<open>payload_len\<close> is a value that \<^verbatim>\<open>int\<close>
  refuses (null, a list, a dictionary, a string that \<^verbatim>\<open>int\<close> cannot read), the load
  fails with the error \<^verbatim>\<open>int\<close> raises (MalformedRecord). A \<^verbatim>\<open>payload_len\<close> that
  \<^verbatim>\<open>int\<close> converts is no failure, numeric or not: an integer is kept, a boolean
  becomes 0 or 1, a float is truncated, a string that \<^verbatim>\<open>int\<close> reads becomes its
  value, and the record is loaded with the converted length. Whenever a record
  fails, the call returns that error and no packet list at all, whatever records
  precede or follow. The direction is checked before \<^verbatim>\<open>payload_len\<close>, and the first
  failing record decides the error.
\<close>

theorem load_packet_trace_malformed:
  assumes pre: "load_packet_trace int_of_str str_of path pre = Inr loaded"
  shows "(\<forall>s. map_of entry ''direction'' = Some (PStr s) \<and> s \<noteq> ''C->S'' \<and> s \<noteq> ''S->C'' \<longrightarrow>
            load_packet_trace int_of_str str_of path (pre @ PDict entry # post)
              = Inl (ValueError (''Invalid direction '' @ quoted s @ '' in '' @ path)))
       \<and> (\<forall>v. map_of entry ''direction'' = Some v \<and> Direction_of v \<noteq> None
               \<and> map_of entry ''payload_len'' = None \<longrightarrow>
            load_packet_trace int_of_str str_of path (pre @ PDict entry # post)
              = Inl (KeyError ''payload_len''))
       \<and> (\<forall>v len e. map_of entry ''direction'' = Some v \<and> Direction_of v \<noteq> None
               \<and> map_of entry ''payload_len'' = Some len \<and> py_int int_of_str len = Inl e \<longrightarrow>
            load_packet_trace int_of_str str_of path (pre @ PDict entry # post) = Inl e)
       \<and> py_int int_of_str PNone = Inl TypeError
       \<and> (\<forall>xs. py_int int_of_str (PList xs) = Inl TypeError)
       \<and> (\<forall>d. py_int int_of_str (PDict d) = Inl TypeError)
       \<and> (\<forall>s. int_of_str s = None \<longrightarrow> py_int int_of_str (PStr s) = Inl (IntValueError (PStr s)))
       \<and> (\<forall>n. py_int int_of_str (PInt n) = Inr n)
       \<and> (\<forall>b. py_int int_of_str (PBool b) = Inr (if b then 1 else 0))
       \<and> (\<forall>r. py_int int_of_str (PFloat r) = Inr (float_trunc r))
       \<and> (\<forall>s n. int_of_str s = Some n \<longrightarrow> py_int int_of_str (PStr s) = Inr n)
       \<and> (\<forall>v d len n ty. map_of entry ''direction'' = Some v \<and> Direction_of v = Some d
               \<and> map_of entry ''payload_len'' = Some len \<and> py_int int_of_str len = Inr n
               \<and> map_of entry ''msg_type'' = Some ty \<longrightarrow>
            load_packet_trace int_of_str str_of path (pre @ [PDict entry])
              = Inr (loaded @ [new_Packet (int (length pre)) d n (py_str str_of ty)]))
       \<and> (\<forall>item e. load_item int_of_str str_of path (int (length pre)) item = Inl e \<longrightarrow>
            load_packet_trace int_of_str str_of path (pre @ item # post) = Inl e
            \<and> (\<forall>packets. load_packet_trace int_of_str str_of path (pre @ item # post)
                            \<noteq> Inr packets))"
proof -
  have step: "load_packet_trace int_of_str str_of path (pre @ item # post) = Inl e"
    if "load_item int_of_str str_of path (int (length pre)) item = Inl e" for item e
    using load_items_append_error [of int_of_str str_of path 0 pre loaded item e post] pre that
    by (simp add: load_packet_trace_def)
  have c1: "load_packet_trace int_of_str str_of path (pre @ PDict entry # post)
              = Inl (ValueError (''Invalid direction '' @ quoted s @ '' in '' @ path))"
    if "map_of entry ''direction'' = Some (PStr s) \<and> s \<noteq> ''C->S'' \<and> s \<noteq> ''S->C''" for s
    using that by (intro step load_item_invalid_direction) simp_all
  have c2: "load_packet_trace int_of_str str_of path (pre @ PDict entry # post)
              = Inl (KeyError ''payload_len'')"
    if "map_of entry ''direction'' = Some v \<and> Direction_of v \<noteq> None
        \<and> map_of entry ''payload_len'' = None" for v
    using that by (intro step load_item_missing_payload_len [of entry v]) simp_all
  have c3: "load_packet_trace int_of_str str_of path (pre @ PDict entry # post) = Inl e"
    if "map_of entry ''direction'' = Some v \<and> Direction_of v \<noteq> None
        \<and> map_of entry ''payload_len'' = Some len \<and> py_int int_of_str len = Inl e" for v len e
    using that by (intro step load_item_bad_payload_len [of entry v len]) simp_all
  have c4: "py_int int_of_str (PStr s) = Inl (IntValueError (PStr s))" if "int_of_str s = None" for s
    using that by simp
  have c5: "load_packet_trace int_of_str str_of path (pre @ item # post) = Inl e
            \<and> (\<forall>packets. load_packet_trace int_of_str str_of path (pre @ item # post)
                            \<noteq> Inr packets)"
    if "load_item int_of_str str_of path (int (length pre)) item = Inl e" for item e
    using step [OF that] by simp
  show ?thesis
  proof (intro conjI allI impI)
    fix item e packets
    assume "load_item int_of_str str_of path (int (length pre)) item = Inl e"
    from c5 [OF this]
    show "load_packet_trace int_of_str str_of path (pre @ item # post) = Inl e"
      and "load_packet_trace int_of_str str_of path (pre @ item # post) \<noteq> Inr packets"
      by simp_all
  next
    fix s assume "map_of entry ''direction'' = Some (PStr s) \<and> s \<noteq> ''C->S'' \<and> s \<noteq> ''S->C''"
    then show "load_packet_trace int_of_str str_of path (pre @ PDict entry # post)
              = Inl (ValueError (''Invalid direction '' @ quoted s @ '' in '' @ path))"
      by (rule c1)
  next
    fix v assume "map_of entry ''direction'' = Some v \<and> Direction_of v \<noteq> None
               \<and> map_of entry ''payload_len'' = None"
    then show "load_packet_trace int_of_str str_of path (pre @ PDict entry # post)
              = Inl (KeyError ''payload_len'')"
      by (rule c2)
  next
    fix v len e assume "map_of entry ''direction'' = Some v \<and> Direction_of v \<noteq> None
               \<and> map_of entry ''payload_len'' = Some len \<and> py_int int_of_str len = Inl e"
    then show "load_packet_trace int_of_str str_of path (pre @ PDict entry # post) = Inl e"
      by (rule c3)
  next
    fix s assume "int_of_str s = None"
    then show "py_int int_of_str (PStr s) = Inl (IntValueError (PStr s))" by (rule c4)
  next
    fix v d len n ty
    assume h: "map_of entry ''direction'' = Some v \<and> Direction_of v = Some d
               \<and> map_of entry ''payload_len'' = Some len \<and> py_int int_of_str len = Inr n
               \<and> map_of entry ''msg_type'' = Some ty"
    then have "load_item int_of_str str_of path (0 + int (length pre)) (PDict entry)
               = Inr (new_Packet (int (length pre)) d n (py_str str_of ty))"
      using load_item_converted_payload_len [of entry v d len int_of_str n ty str_of path]
      by simp
    from load_items_append_ok [OF pre [unfolded load_packet_trace_def] this]
    show "load_packet_trace int_of_str str_of path (pre @ [PDict entry])
              = Inr (loaded @ [new_Packet (int (length pre)) d n (py_str str_of ty)])"
      by (simp add: load_packet_trace_def)
  qed simp_all
qed

theorem load_packet_trace_malformed_witness:
  "\<forall>str_of.
   load_packet_trace ascii_int str_of ''data/sample_trace.json''
      [PDict [(''direction'', PStr ''C->S''), (''payload_len'', PInt 120),
              (''msg_type'', PStr ''KEXINIT'')]]
     = Inr [new_Packet 0 CLIENT_TO_SERVER 120 ''KEXINIT'']
   \<and> load_packet_trace ascii_int str_of ''data/sample_trace.json''
      ([PDict [(''direction'', PStr ''C->S''), (''payload_len'', PInt 120),
               (''msg_type'', PStr ''KEXINIT'')]]
       @ PDict [(''direction'', PStr ''sideways''), (''payload_len'', PInt 7),
                (''msg_type'', PStr ''KEXINIT'')] # [])
     = Inl (ValueError (''Invalid direction '' @ quoted ''sideways''
                        @ '' in '' @ ''data/sample_trace.json''))
   \<and> load_packet_trace ascii_int str_of ''data/sample_trace.json''
      ([PDict [(''direction'', PStr ''C->S''), (''payload_len'', PInt 120),
               (''msg_type'', PStr ''KEXINIT'')]]
       @ PDict [(''direction'', PStr ''S->C''), (''msg_type'', PStr ''KEXINIT'')] # [])
     = Inl (KeyError ''payload_len'')
   \<and> load_packet_trace ascii_int str_of ''data/sample_trace.json''
      ([PDict [(''direction'', PStr ''C->S''), (''payload_len'', PInt 120),
               (''msg_type'', PStr ''KEXINIT'')]]
       @ PDict [(''direction'', PStr ''S->C''), (''payload_len'', PStr ''abc''),
                (''msg_type'', PStr ''KEXINIT'')] # [])
     = Inl (IntValueError (PStr ''abc''))"
proof
  fix str_of :: "pyval \<Rightarrow> string"
  let ?pre = "[PDict [(''direction'', PStr ''C->S''), (''payload_len'', PInt 120),
                      (''msg_type'', PStr ''KEXINIT'')]]"
  let ?path = "''data/sample_trace.json''"
  have pre: "load_packet_trace ascii_int str_of ?path ?pre
             = Inr [new_Packet 0 CLIENT_TO_SERVER 120 ''KEXINIT'']"
    by (simp add: load_packet_trace_def load_item_def getitem_def Direction_of_def py_str_def)
  have a: "map_of [(''direction'', PStr ''sideways''), (''payload_len'', PInt 7),
                   (''msg_type'', PStr ''KEXINIT'')] ''direction'' = Some (PStr ''sideways'')
           \<and> ''sideways'' \<noteq> ''C->S'' \<and> ''sideways'' \<noteq> ''S->C''"
    by simp
  have b: "map_of [(''direction'', PStr ''S->C''), (''msg_type'', PStr ''KEXINIT'')] ''direction''
             = Some (PStr ''S->C'')
           \<and> Direction_of (PStr ''S->C'') \<noteq> None
           \<and> map_of [(''direction'', PStr ''S->C''), (''msg_type'', PStr ''KEXINIT'')] ''payload_len''
             = None"
    by (simp add: Direction_of_def)
  have c: "map_of [(''direction'', PStr ''S->C''), (''payload_len'', PStr ''abc''),
                   (''msg_type'', PStr ''KEXINIT'')] ''direction'' = Some (PStr ''S->C'')
           \<and> Direction_of (PStr ''S->C'') \<noteq> None
           \<and> map_of [(''direction'', PStr ''S->C''), (''payload_len'', PStr ''abc''),
                      (''msg_type'', PStr ''KEXINIT'')] ''payload_len'' = Some (PStr ''abc'')
           \<and> py_int ascii_int (PStr ''abc'') = Inl (IntValueError (PStr ''abc''))"
    by (simp add: Direction_of_def ascii_int_def digit_of_def)
  note t = load_packet_trace_malformed [OF pre]
  from t [THEN conjunct1, rule_format, OF a]
       t [THEN conjunct2, THEN conjunct1, rule_format, OF b]
       t [THEN conjunct2, THEN conjunct2, THEN conjunct1, rule_format, OF c]
       pre
  show "load_packet_trace ascii_int str_of ''data/sample_trace.json''
      [PDict [(''direction'', PStr ''C->S''), (''payload_len'', PInt 120),
              (''msg_type'', PStr ''KEXINIT'')]]
     = Inr [new_Packet 0 CLIENT_TO_SERVER 120 ''KEXINIT'']
   \<and> load_packet_trace ascii_int str_of ''data/sample_trace.json''
      ([PDict [(''direction'', PStr ''C->S''), (''payload_len'', PInt 120),
               (''msg_type'', PStr ''KEXINIT'')]]
       @ PDict [(''direction'', PStr ''sideways''), (''payload_len'', PInt 7),
                (''msg_type'', PStr ''KEXINIT'')] # [])
     = Inl (ValueError (''Invalid direction '' @ quoted ''sideways''
                        @ '' in '' @ ''data/sample_trace.json''))
   \<and> load_packet_trace ascii_int str_of ''data/sample_trace.json''
      ([PDict [(''direction'', PStr ''C->S''), (''payload_len'', PInt 120),
               (''msg_type'', PStr ''KEXINIT'')]]
       @ PDict [(''direction'', PStr ''S->C''), (''msg_type'', PStr ''KEXINIT'')] # [])
     = Inl (KeyError ''payload_len'')
   \<and> load_packet_trace ascii_int str_of ''data/sample_trace.json''
      ([PDict [(''direction'', PStr ''C->S''), (''payload_len'', PInt 120),
               (''msg_type'', PStr ''KEXINIT'')]]
       @ PDict [(''direction'', PStr ''S->C''), (''payload_len'', PStr ''abc''),
                (''msg_type'', PStr ''KEXINIT'')] # [])
     = Inl (IntValueError (PStr ''abc''))"
    by blast
qed

text \<open>
  C7, as stated, fails: a \<^verbatim>\<open>drop_indices\<close> list holding the float 2.5 is not a list of
  integers, and \<^verbatim>\<open>select_drop_indices\<close> returns the indices \<open>[2]\<close> for it instead of
  failing, because every element goes through \<^verbatim>\<open>int\<close>.
\<close>

theorem select_drop_indices_accepts_float:
  "select_drop_indices ascii_int
     [(''profiles'', PDict [(''p'', PDict [(''drop_indices'', PList [PFloat (5 / 2)])])]),
      (''active_profile'', PStr ''p'')]
   = Inr ([2], PStr (''profile '' @ quoted ''p''))"
  by (simp add: select_drop_indices_def dict_get_def float_trunc_def floor_eq_iff)

text \<open>
  C7, amended. For a config whose \<^verbatim>\<open>profiles\<close> is a mapping and whose
  \<^verbatim>\<open>active_profile\<close> is a string: when no mapping is stored under the active profile's
  name, \<^verbatim>\<open>select_drop_indices\<close> fails with the \<^verbatim>\<open>ValueError\<close> "Profile ... not found
  or not a mapping" (ProfileNotFound); when the profile's \<^verbatim>\<open>drop_indices\<close> is not a
  list, in particular when it is a string, it fails with the \<^verbatim>\<open>ValueError\<close> "Profile
  ... has invalid 'drop_indices'" (InvalidDropList); when it is a list, every element
  is converted with \<^verbatim>\<open>int\<close>, so the call fails only with the error of the first
  element \<^verbatim>\<open>int\<close> refuses and otherwise returns the converted indices with the
  profile's description. A list of integers is always accepted unchanged.
\<close>

theorem select_drop_indices_profile_errors:
  assumes pf: "map_of config ''profiles'' = Some (PDict profiles)"
    and ap: "map_of config ''active_profile'' = Some (PStr name)"
  shows "((\<forall>profile. map_of profiles name \<noteq> Some (PDict profile)) \<longrightarrow>
            select_drop_indices int_of_str config
              = Inl (ValueError (''Profile '' @ quoted name @ '' not found or not a mapping'')))
       \<and> (\<forall>profile v. map_of profiles name = Some (PDict profile)
               \<and> map_of profile ''drop_indices'' = Some v \<and> \<not> isinstance_list v \<longrightarrow>
            select_drop_indices int_of_str config
              = Inl (ValueError (''Profile '' @ quoted name @ '' has invalid ''
                                 @ quoted ''drop_indices'')))
       \<and> (\<forall>profile s. map_of profiles name = Some (PDict profile)
               \<and> map_of profile ''drop_indices'' = Some (PStr s) \<longrightarrow>
            select_drop_indices int_of_str config
              = Inl (ValueError (''Profile '' @ quoted name @ '' has invalid ''
                                 @ quoted ''drop_indices'')))
       \<and> (\<forall>profile xs. map_of profiles name = Some (PDict profile)
               \<and> map_of profile ''drop_indices'' = Some (PList xs) \<longrightarrow>
            select_drop_indices int_of_str config
              = (case int_list int_of_str xs of
                   Inl e \<Rightarrow> Inl e
                 | Inr indices \<Rightarrow>
                     Inr (indices, dict_get profile ''description''
                                     (PStr (''profile '' @ quoted name)))))
       \<and> (\<forall>ns. int_list int_of_str (map PInt ns) = Inr ns)"
proof (intro conjI allI impI)
  assume "\<forall>profile. map_of profiles name \<noteq> Some (PDict profile)"
  then have "\<not> isinstance_dict (dict_get profiles name PNone)"
    by (auto simp: dict_get_def isinstance_dict_iff split: option.splits)
  then show "select_drop_indices int_of_str config
              = Inl (ValueError (''Profile '' @ quoted name @ '' not found or not a mapping''))"
    unfolding select_profile_branch [OF pf ap] by (simp add: Let_def)
next
  fix profile v
  assume "map_of profiles name = Some (PDict profile)
               \<and> map_of profile ''drop_indices'' = Some v \<and> \<not> isinstance_list v"
  then show "select_drop_indices int_of_str config
              = Inl (ValueError (''Profile '' @ quoted name @ '' has invalid ''
                                 @ quoted ''drop_indices''))"
    unfolding select_profile_branch [OF pf ap] by (simp add: Let_def dict_get_def)
next
  fix profile s
  assume "map_of profiles name = Some (PDict profile)
               \<and> map_of profile ''drop_indices'' = Some (PStr s)"
  then show "select_drop_indices int_of_str config
              = Inl (ValueError (''Profile '' @ quoted name @ '' has invalid ''
                                 @ quoted ''drop_indices''))"
    unfolding select_profile_branch [OF pf ap] by (simp add: Let_def dict_get_def)
next
  fix profile xs
  assume "map_of profiles name = Some (PDict profile)
               \<and> map_of profile ''drop_indices'' = Some (PList xs)"
  then show "select_drop_indices int_of_str config
              = (case int_list int_of_str xs of
                   Inl e \<Rightarrow> Inl e
                 | Inr indices \<Rightarrow>
                     Inr (indices, dict_get profile ''description''
                                     (PStr (''profile '' @ quoted name))))"
    unfolding select_profile_branch [OF pf ap]
    by (simp add: Let_def dict_get_def split: sum.splits)
next
  fix ns show "int_list int_of_str (map PInt ns) = Inr ns" by simp
qed

theorem select_drop_indices_profile_errors_witness:
  "select_drop_indices ascii_int
      [(''profiles'', PDict [(''early'', PDict [(''drop_indices'', PStr ''2,3'')])]),
       (''active_profile'', PStr ''late'')]
     = Inl (ValueError (''Profile '' @ quoted ''late'' @ '' not found or not a mapping''))
   \<and> select_drop_indices ascii_int
      [(''profiles'', PDict [(''early'', PDict [(''drop_indices'', PStr ''2,3'')])]),
       (''active_profile'', PStr ''early'')]
     = Inl (ValueError (''Profile '' @ quoted ''early'' @ '' has invalid '' @ quoted ''drop_indices''))"
proof -
  let ?profiles = "[(''early'', PDict [(''drop_indices'', PStr ''2,3'')])]"
  have p1: "map_of [(''profiles'', PDict ?profiles), (''active_profile'', PStr ''late'')] ''profiles''
            = Some (PDict ?profiles)"
    and a1: "map_of [(''profiles'', PDict ?profiles), (''active_profile'', PStr ''late'')]
               ''active_profile'' = Some (PStr ''late'')"
    and p2: "map_of [(''profiles'', PDict ?profiles), (''active_profile'', PStr ''early'')] ''profiles''
            = Some (PDict ?profiles)"
    and a2: "map_of [(''profiles'', PDict ?profiles), (''active_profile'', PStr ''early'')]
               ''active_profile'' = Some (PStr ''early'')"
    by simp_all
  have none: "\<forall>profile. map_of ?profiles ''late'' \<noteq> Some (PDict profile)" by simp
  have str: "map_of ?profiles ''early'' = Some (PDict [(''drop_indices'', PStr ''2,3'')])
             \<and> map_of [(''drop_indices'', PStr ''2,3'')] ''drop_indices'' = Some (PStr ''2,3'')"
    by simp
  from select_drop_indices_profile_errors [OF p1 a1, THEN conjunct1, THEN mp, OF none]
       select_drop_indices_profile_errors
         [OF p2 a2, THEN conjunct2, THEN conjunct2, THEN conjunct1, rule_format, OF str]
  show ?thesis by blast
qed

text \<open>
  C8. Let the trace load without error, and let \<^verbatim>\<open>random.sample\<close> meet its contract.
  Write \<open>client\<close> for the indices of the client-to-server packets of the baseline and
  \<open>k\<close> for the requested count clamped between 0 and their number. When \<open>k\<close> is 0,
  \<^verbatim>\<open>cmd_explore\<close> reports that there is no client packet or nothing to drop, and
  \<^verbatim>\<open>api_run\<close> answers with the untouched baseline; neither raises. When \<open>k\<close> is
  positive, both drop the sorted sample \<open>picked\<close>, which is ascending, without
  repetition, of length \<open>k\<close> and made of client indices. When the requested count is
  at least the number of client packets, \<open>picked\<close> is all of \<open>client\<close> and no
  client-to-server packet is left in the visible trace. With a seed other than 0 the
  outcome is the same from every state of the generator.
\<close>

theorem random_drop_selection:
  fixes sample :: "'g \<Rightarrow> int list \<Rightarrow> nat \<Rightarrow> int list \<times> 'g"
    and seed_gen :: "int \<Rightarrow> 'g" and g :: 'g
    and packets :: "Packet list" and random_drop seed :: int
  defines "baseline \<equiv> compute_sequence_numbers packets"
  defines "client \<equiv> client_indices baseline"
  defines "k \<equiv> max 0 (min random_drop (int (length client)))"
  defines "picked \<equiv> sort (fst (sample (if seed \<noteq> 0 then seed_gen seed else g) client (nat k)))"
  defines "visible \<equiv> visible_after_attack baseline picked"
  assumes smp: "sample_without_replacement sample"
    and load: "load_packet_trace int_of_str str_of pcap raw_packets = Inr packets"
  shows "(k = 0 \<longrightarrow>
            fst (cmd_explore int_of_str str_of seed_gen sample pcap raw_packets random_drop seed g)
              = Inr (if client = [] then No_client_packets else Nothing_to_drop))
       \<and> (0 < k \<longrightarrow>
            fst (cmd_explore int_of_str str_of seed_gen sample pcap raw_packets random_drop seed g)
              = Inr (Explored picked visible (print_sequence_diff_changed baseline visible)))
       \<and> (0 < k \<longrightarrow>
            sorted picked \<and> distinct picked \<and> int (length picked) = k \<and> set picked \<subseteq> set client)
       \<and> (0 < k \<and> int (length client) \<le> random_drop \<longrightarrow>
            picked = client \<and> count_dir CLIENT_TO_SERVER visible = 0)
       \<and> (seed \<noteq> 0 \<longrightarrow>
            (\<forall>g'. fst (cmd_explore int_of_str str_of seed_gen sample pcap raw_packets
                          random_drop seed g')
                 = fst (cmd_explore int_of_str str_of seed_gen sample pcap raw_packets
                          random_drop seed g)))
       \<and> (map_of data ''mode'' = Some (PStr ''explore'')
            \<and> py_int int_of_str (dict_get data ''random_drop'' (PInt 1)) = Inr random_drop
            \<and> py_int int_of_str (dict_get data ''seed'' (PInt 0)) = Inr seed \<longrightarrow>
            (k = 0 \<longrightarrow>
               fst (api_run int_of_str str_of seed_gen sample raw_packets config_document data g)
                 = Inr (Explore_error baseline baseline (build_diff baseline baseline)))
          \<and> (0 < k \<longrightarrow>
               fst (api_run int_of_str str_of seed_gen sample raw_packets config_document data g)
                 = Inr (Explore_response picked baseline visible (build_diff baseline visible)))
          \<and> (seed \<noteq> 0 \<longrightarrow>
               (\<forall>g'. fst (api_run int_of_str str_of seed_gen sample raw_packets
                             config_document data g')
                    = fst (api_run int_of_str str_of seed_gen sample raw_packets
                             config_document data g))))"
proof -
  note defs = baseline_def client_def k_def picked_def visible_def
  have sorted_client: "sorted client" and distinct_client: "distinct client"
    unfolding client_def baseline_def
    using client_indices_sorted_distinct [OF load_packet_trace_sorted_distinct [OF load]]
    by simp_all
  have k_le: "k \<le> int (length client)" and k_ge: "0 \<le> k" unfolding k_def by simp_all
  have k0: "k = 0 \<longleftrightarrow> client = [] \<or> random_drop \<le> 0"
  proof (cases "client = []")
    case True
    then show ?thesis by (simp add: k_def)
  next
    case False
    then have "0 < int (length client)" by simp
    then show ?thesis using False unfolding k_def by linarith
  qed
  have c1: "fst (cmd_explore int_of_str str_of seed_gen sample pcap raw_packets random_drop seed g)
              = Inr (if client = [] then No_client_packets else Nothing_to_drop)" if "k = 0"
    using that unfolding defs by (simp add: cmd_explore_result [OF load])
  have c2: "fst (cmd_explore int_of_str str_of seed_gen sample pcap raw_packets random_drop seed g)
              = Inr (Explored picked visible (print_sequence_diff_changed baseline visible))"
    if "0 < k"
  proof -
    from that k_le have "client \<noteq> []" by auto
    with that show ?thesis unfolding defs by (simp add: cmd_explore_result [OF load])
  qed
  have c3: "sorted picked \<and> distinct picked \<and> int (length picked) = k \<and> set picked \<subseteq> set client"
    if "0 < k"
    unfolding picked_def
    using picked_facts(1-4) [OF smp sorted_client distinct_client that k_le] by blast
  have c4: "picked = client \<and> count_dir CLIENT_TO_SERVER visible = 0"
    if "0 < k \<and> int (length client) \<le> random_drop"
  proof -
    from that have pos: "0 < k" and "k = int (length client)" unfolding k_def by auto
    from picked_facts(5) [OF smp sorted_client distinct_client pos k_le this(2)]
    have p: "picked = client" unfolding picked_def .
    then have "set picked = set (client_indices baseline)" by (simp add: client_def)
    from drop_all_clients [OF this] p show ?thesis by (simp add: visible_def)
  qed
  have c5: "fst (cmd_explore int_of_str str_of seed_gen sample pcap raw_packets random_drop seed g')
            = fst (cmd_explore int_of_str str_of seed_gen sample pcap raw_packets random_drop seed g)"
    if "seed \<noteq> 0" for g'
    using that by (simp add: cmd_explore_result [OF load])
  have web: "(k = 0 \<longrightarrow>
               fst (api_run int_of_str str_of seed_gen sample raw_packets config_document data g)
                 = Inr (Explore_error baseline baseline (build_diff baseline baseline)))
          \<and> (0 < k \<longrightarrow>
               fst (api_run int_of_str str_of seed_gen sample raw_packets config_document data g)
                 = Inr (Explore_response picked baseline visible (build_diff baseline visible)))
          \<and> (seed \<noteq> 0 \<longrightarrow>
               (\<forall>g'. fst (api_run int_of_str str_of seed_gen sample raw_packets
                             config_document data g')
                    = fst (api_run int_of_str str_of seed_gen sample raw_packets
                             config_document data g)))"
    if h: "map_of data ''mode'' = Some (PStr ''explore'')
            \<and> py_int int_of_str (dict_get data ''random_drop'' (PInt 1)) = Inr random_drop
            \<and> py_int int_of_str (dict_get data ''seed'' (PInt 0)) = Inr seed"
  proof -
    from h have m: "map_of data ''mode'' = Some (PStr ''explore'')"
      and r: "py_int int_of_str (dict_get data ''random_drop'' (PInt 1)) = Inr random_drop"
      and s: "py_int int_of_str (dict_get data ''seed'' (PInt 0)) = Inr seed" by simp_all
    note api = api_run_explore_result [OF load m r s, of seed_gen sample config_document]
    have w1: "fst (api_run int_of_str str_of seed_gen sample raw_packets config_document data g)
                 = Inr (Explore_error baseline baseline (build_diff baseline baseline))" if "k = 0"
      using that k0 unfolding defs by (simp add: api)
    have w2: "fst (api_run int_of_str str_of seed_gen sample raw_packets config_document data g)
                 = Inr (Explore_response picked baseline visible (build_diff baseline visible))"
      if "0 < k"
    proof -
      from that k0 have "\<not> (client = [] \<or> random_drop \<le> 0)" by simp
      then show ?thesis unfolding defs by (simp add: api)
    qed
    have w3: "fst (api_run int_of_str str_of seed_gen sample raw_packets config_document data g')
              = fst (api_run int_of_str str_of seed_gen sample raw_packets config_document data g)"
      if "seed \<noteq> 0" for g'
      using that by (simp add: api)
    from w1 w2 w3 show ?thesis by blast
  qed
  from c1 c2 c3 c4 c5 web show ?thesis by blast
qed

theorem random_drop_selection_witness:
  "\<forall>str_of.
     fst (cmd_explore ascii_int str_of nat first_k_sample ''data/sample_trace.json'' demo_raw 5 7 0)
       = Inr (Explored [0, 2]
               [(new_Packet 1 SERVER_TO_CLIENT 96 ''KEXINIT'')\<lparr>seq_no := Some 0\<rparr>]
               [''no''])
   \<and> count_dir CLIENT_TO_SERVER
         [(new_Packet 1 SERVER_TO_CLIENT 96 ''KEXINIT'')\<lparr>seq_no := Some 0\<rparr>] = 0"
proof
  fix str_of :: "pyval \<Rightarrow> string"
  let ?packets = "[new_Packet 0 CLIENT_TO_SERVER 120 ''KEXINIT'',
                   new_Packet 1 SERVER_TO_CLIENT 96 ''KEXINIT'',
                   new_Packet 2 CLIENT_TO_SERVER 16 ''NEWKEYS'']"
  let ?base = "compute_sequence_numbers ?packets"
  note t = random_drop_selection
             [OF first_k_sample_contract demo_raw_loads [of str_of "''data/sample_trace.json''"],
              where random_drop = 5 and seed = 7 and seed_gen = nat and g = 0]
  have k: "0 < max 0 (min 5 (int (length (client_indices ?base))))"
    by (simp add: demo_raw_clients)
  have k': "0 < max 0 (min 5 (int (length (client_indices ?base))))
            \<and> int (length (client_indices ?base)) \<le> 5"
    by (simp add: demo_raw_clients)
  have picked: "sort (fst (first_k_sample (if (7::int) \<noteq> 0 then nat 7 else 0)
                   (client_indices ?base)
                   (nat (max 0 (min 5 (int (length (client_indices ?base)))))))) = [0, 2]"
    using t [THEN conjunct2, THEN conjunct2, THEN conjunct2, THEN conjunct1, THEN mp, OF k',
             THEN conjunct1]
    by (simp only: demo_raw_clients)
  have visible: "visible_after_attack ?base [0, 2]
                 = [(new_Packet 1 SERVER_TO_CLIENT 96 ''KEXINIT'')\<lparr>seq_no := Some 0\<rparr>]"
    by (simp add: compute_sequence_numbers_def new_Packet_def apply_drop_indices_def
          filter_visible_packets_def)
  have marks: "print_sequence_diff_changed ?base
                 [(new_Packet 1 SERVER_TO_CLIENT 96 ''KEXINIT'')\<lparr>seq_no := Some 0\<rparr>] = [''no'']"
    by (simp add: print_sequence_diff_changed_def base_seq_by_index_def
          compute_sequence_numbers_def new_Packet_def)
  have "fst (cmd_explore ascii_int str_of nat first_k_sample ''data/sample_trace.json'' demo_raw 5 7 0)
       = Inr (Explored [0, 2]
               [(new_Packet 1 SERVER_TO_CLIENT 96 ''KEXINIT'')\<lparr>seq_no := Some 0\<rparr>]
               [''no''])"
    using t [THEN conjunct2, THEN conjunct1, THEN mp, OF k]
    by (simp only: picked visible marks)
  moreover have "count_dir CLIENT_TO_SERVER
         [(new_Packet 1 SERVER_TO_CLIENT 96 ''KEXINIT'')\<lparr>seq_no := Some 0\<rparr>] = 0"
    using t [THEN conjunct2, THEN conjunct2, THEN conjunct2, THEN conjunct1, THEN mp, OF k',
             THEN conjunct2]
    by (simp only: picked visible)
  ultimately show "fst (cmd_explore ascii_int str_of nat first_k_sample ''data/sample_trace.json'' demo_raw 5 7 0)
       = Inr (Explored [0, 2]
               [(new_Packet 1 SERVER_TO_CLIENT 96 ''KEXINIT'')\<lparr>seq_no := Some 0\<rparr>]
               [''no''])
   \<and> count_dir CLIENT_TO_SERVER
         [(new_Packet 1 SERVER_TO_CLIENT 96 ''KEXINIT'')\<lparr>seq_no := Some 0\<rparr>] = 0"
    by (rule conjI)
qed

text \<open>
  C9, as stated, fails: with \<^verbatim>\<open>profiles\<close> present, \<^verbatim>\<open>active_profile\<close> absent and a
  top-level \<^verbatim>\<open>drop_indices\<close> that is a string, \<^verbatim>\<open>select_drop_indices\<close> raises the
  \<^verbatim>\<open>ValueError\<close> of the top-level branch.
\<close>

theorem select_drop_indices_fallback_raises:
  "select_drop_indices ascii_int [(''profiles'', PDict []), (''drop_indices'', PStr ''abc'')]
   = Inl (ValueError (''Config key '' @ quoted ''drop_indices'' @ '' must be a list of integers''))"
  by (simp add: select_drop_indices_def dict_get_def)

text \<open>
  C9, amended. For a config in which the key \<^verbatim>\<open>profiles\<close> is present and
  \<^verbatim>\<open>active_profile\<close> is absent or not a string, \<^verbatim>\<open>select_drop_indices\<close> resolves from
  the top-level key \<^verbatim>\<open>drop_indices\<close> alone and never raises the profile-not-found
  error. An absent key gives the empty list and a list of integers gives itself, both
  with the description "top-level drop_indices" and without error. Any other list
  gives its elements converted with \<^verbatim>\<open>int\<close>, or the error of the first element that
  \<^verbatim>\<open>int\<close> refuses; a value that is not a list raises the \<^verbatim>\<open>ValueError\<close> "Config key
  'drop_indices' must be a list of integers".
\<close>

theorem select_drop_indices_fallback:
  assumes pf: "map_of config ''profiles'' = Some p"
    and ap: "\<forall>s. map_of config ''active_profile'' \<noteq> Some (PStr s)"
  shows "(map_of config ''drop_indices'' = None \<longrightarrow>
            select_drop_indices int_of_str config = Inr ([], PStr ''top-level drop_indices''))
       \<and> (\<forall>xs. map_of config ''drop_indices'' = Some (PList xs) \<longrightarrow>
            select_drop_indices int_of_str config
              = (case int_list int_of_str xs of
                   Inl e \<Rightarrow> Inl e
                 | Inr indices \<Rightarrow> Inr (indices, PStr ''top-level drop_indices'')))
       \<and> (\<forall>ns. map_of config ''drop_indices'' = Some (PList (map PInt ns)) \<longrightarrow>
            select_drop_indices int_of_str config = Inr (ns, PStr ''top-level drop_indices''))
       \<and> (\<forall>v. map_of config ''drop_indices'' = Some v \<and> \<not> isinstance_list v \<longrightarrow>
            select_drop_indices int_of_str config
              = Inl (ValueError (''Config key '' @ quoted ''drop_indices''
                                 @ '' must be a list of integers'')))
       \<and> (\<forall>name. select_drop_indices int_of_str config
              \<noteq> Inl (ValueError (''Profile '' @ quoted name @ '' not found or not a mapping'')))"
proof (intro conjI allI impI)
  assume "map_of config ''drop_indices'' = None"
  then show "select_drop_indices int_of_str config = Inr ([], PStr ''top-level drop_indices'')"
    unfolding select_top_level_branch [OF ap] by (simp add: Let_def dict_get_def)
next
  fix xs assume "map_of config ''drop_indices'' = Some (PList xs)"
  then show "select_drop_indices int_of_str config
              = (case int_list int_of_str xs of
                   Inl e \<Rightarrow> Inl e
                 | Inr indices \<Rightarrow> Inr (indices, PStr ''top-level drop_indices''))"
    unfolding select_top_level_branch [OF ap] by (simp add: Let_def dict_get_def)
next
  fix ns assume "map_of config ''drop_indices'' = Some (PList (map PInt ns))"
  then show "select_drop_indices int_of_str config = Inr (ns, PStr ''top-level drop_indices'')"
    unfolding select_top_level_branch [OF ap] by (simp add: Let_def dict_get_def)
next
  fix v assume "map_of config ''drop_indices'' = Some v \<and> \<not> isinstance_list v"
  then show "select_drop_indices int_of_str config
              = Inl (ValueError (''Config key '' @ quoted ''drop_indices''
                                 @ '' must be a list of integers''))"
    unfolding select_top_level_branch [OF ap] by (simp add: Let_def dict_get_def)
next
  fix name
  show "select_drop_indices int_of_str config
              \<noteq> Inl (ValueError (''Profile '' @ quoted name @ '' not found or not a mapping''))"
    unfolding select_top_level_branch [OF ap]
    by (auto simp: Let_def quoted_def int_list_no_ValueError split: sum.splits)
qed

theorem select_drop_indices_fallback_witness:
  "select_drop_indices ascii_int [(''profiles'', PDict []), (''drop_indices'', PList [PInt 2, PInt 5])]
     = Inr ([2, 5], PStr ''top-level drop_indices'')
   \<and> select_drop_indices ascii_int [(''profiles'', PDict []), (''active_profile'', PInt 3)]
     = Inr ([], PStr ''top-level drop_indices'')"
proof -
  have p1: "map_of [(''profiles'', PDict []), (''drop_indices'', PList [PInt 2, PInt 5])] ''profiles''
            = Some (PDict [])"
    and a1: "\<forall>s. map_of [(''profiles'', PDict []), (''drop_indices'', PList [PInt 2, PInt 5])]
               ''active_profile'' \<noteq> Some (PStr s)"
    and d1: "map_of [(''profiles'', PDict []), (''drop_indices'', PList [PInt 2, PInt 5])]
               ''drop_indices'' = Some (PList (map PInt [2, 5]))"
    and p2: "map_of [(''profiles'', PDict []), (''active_profile'', PInt 3)] ''profiles''
            = Some (PDict [])"
    and a2: "\<forall>s. map_of [(''profiles'', PDict []), (''active_profile'', PInt 3)]
               ''active_profile'' \<noteq> Some (PStr s)"
    and d2: "map_of [(''profiles'', PDict []), (''active_profile'', PInt 3)] ''drop_indices'' = None"
    by simp_all
  from select_drop_indices_fallback
         [OF p1 a1, THEN conjunct2, THEN conjunct2, THEN conjunct1, rule_format, OF d1]
       select_drop_indices_fallback [OF p2 a2, THEN conjunct1, rule_format, OF d2]
  show ?thesis by blast
qed

text \<open>
  C10. For a config whose \<^verbatim>\<open>profiles\<close> is a mapping, whose \<^verbatim>\<open>active_profile\<close> is a
  string and whose selected profile is a mapping without the key \<^verbatim>\<open>drop_indices\<close>,
  \<^verbatim>\<open>select_drop_indices\<close> returns the empty index list, with the profile's description
  (or the default one), and raises no error.
\<close>

theorem select_drop_indices_profile_without_list:
  assumes pf: "map_of config ''profiles'' = Some (PDict profiles)"
    and ap: "map_of config ''active_profile'' = Some (PStr name)"
    and pr: "map_of profiles name = Some (PDict profile)"
    and no: "map_of profile ''drop_indices'' = None"
  shows "select_drop_indices int_of_str config
         = Inr ([], dict_get profile ''description'' (PStr (''profile '' @ quoted name)))"
  unfolding select_profile_branch [OF pf ap] using pr no by (simp add: Let_def dict_get_def)

theorem select_drop_indices_profile_without_list_witness:
  "select_drop_indices ascii_int
      [(''profiles'', PDict [(''quiet'', PDict [(''description'', PStr ''drops nothing'')])]),
       (''active_profile'', PStr ''quiet'')]
     = Inr ([], PStr ''drops nothing'')"
proof -
  let ?profile = "[(''description'', PStr ''drops nothing'')]"
  let ?config = "[(''profiles'', PDict [(''quiet'', PDict ?profile)]),
                  (''active_profile'', PStr ''quiet'')]"
  have "map_of ?config ''profiles'' = Some (PDict [(''quiet'', PDict ?profile)])"
    and "map_of ?config ''active_profile'' = Some (PStr ''quiet'')"
    and "map_of [(''quiet'', PDict ?profile)] ''quiet'' = Some (PDict ?profile)"
    and "map_of ?profile ''drop_indices'' = None"
    by simp_all
  from select_drop_indices_profile_without_list [OF this, of ascii_int]
  show ?thesis by (simp add: dict_get_def)
qed

end
